theory Spec2Isabelle
  imports
    Main
    "HOL-Library.Word"
    "HOL-Library.Signed_Division"
    "HOL-Library.Multiset"
begin

section \<open>Data model\<close>

text \<open>
  The record type of the DNS library the provider is written against: its fields as
  \<^verbatim>\<open>provider.go\<close> reads and writes them. Strings are byte strings. \<open>TTL\<close> is a
  \<^verbatim>\<open>time.Duration\<close>, a signed 64-bit count of nanoseconds; \<open>Priority\<close> is a Go
  \<^verbatim>\<open>int\<close>, taken as 64 bits wide. Both are words read through \<open>sint\<close>.
\<close>

record Record =
  ID :: string
  Type :: string
  Name :: string
  Value :: string
  TTL :: "64 word"
  Priority :: "64 word"

text \<open>
  The anonymous struct that \<^verbatim>\<open>GetRecords\<close> decodes one
  \<^verbatim>\<open>reply>resource_record\<close> element into; the fields are named after their XML tags.
\<close>

record resource_record =
  rr_record_id :: string
  rr_type :: string
  rr_host :: string
  rr_value :: string
  rr_ttl :: "64 word"
  rr_distance :: "64 word"

record Provider =
  APIToken :: string

subsection \<open>The world outside the provider\<close>

text \<open>
  What \<^verbatim>\<open>client.Do\<close> followed by \<^verbatim>\<open>ioutil.ReadAll\<close> yields: the call fails, or
  there is a response with a status code, the bytes read from its body, and whether the
  read ended without an error.
\<close>

datatype http_reply = DoFailed | Response int string bool

text \<open>
  The standard library and the network, as parameters. \<open>new_request\<close> tells whether
  \<^verbatim>\<open>http.NewRequest\<close> accepts a URL. \<open>client_do\<close> answers a request; the answer may
  depend on every request issued before it (the first argument, oldest first), which makes
  the registrar an arbitrary deterministic state machine. \<open>unmarshal_records\<close> and
  \<open>unmarshal_reply\<close> are \<^verbatim>\<open>xml.Unmarshal\<close> at the two struct types the provider
  decodes into; \<open>None\<close> is a decoding error.
\<close>

record env =
  new_request :: "string \<Rightarrow> bool"
  client_do :: "string list \<Rightarrow> string \<Rightarrow> http_reply"
  unmarshal_records :: "string \<Rightarrow> resource_record list option"
  unmarshal_reply :: "string \<Rightarrow> (int \<times> string) option"

text \<open>
  The errors of the provider by kind; the context that the messages of the source carry
  besides (domain, host name) is left out. \<open>RegistrarError\<close> holds the reply code and the
  detail text, \<open>HTTPStatusError\<close> the status and the body.
\<close>

datatype error =
    RequestError
  | TransportError
  | ReadError
  | HTTPStatusError int string
  | DecodeError
  | RegistrarError int string

text \<open>
  An operation returns a value, returns an error, or ends the process
  (\<^verbatim>\<open>log.Fatalf\<close> prints and calls \<^verbatim>\<open>os.Exit(1)\<close>).
\<close>

datatype 'a result = Ok 'a | Err error | Fatal

section \<open>Strings\<close>

text \<open>\<^verbatim>\<open>strings.HasSuffix\<close> and \<^verbatim>\<open>strings.TrimSuffix\<close>.\<close>

definition HasSuffix :: "string \<Rightarrow> string \<Rightarrow> bool" where
  "HasSuffix s suffix =
     (length s \<ge> length suffix \<and> drop (length s - length suffix) s = suffix)"

definition TrimSuffix :: "string \<Rightarrow> string \<Rightarrow> string" where
  "TrimSuffix s suffix =
     (if HasSuffix s suffix then take (length s - length suffix) s else s)"

text \<open>The verb \<^verbatim>\<open>%d\<close> of \<^verbatim>\<open>fmt.Sprintf\<close> on a signed integer.\<close>

definition digit :: "nat \<Rightarrow> char" where
  "digit n = ''0123456789'' ! n"

function show_nat :: "nat \<Rightarrow> string" where
  "show_nat n = (if n < 10 then [digit n] else show_nat (n div 10) @ [digit (n mod 10)])"
  by pat_completeness auto
termination
  by (relation "measure id") auto

declare show_nat.simps [simp del]

definition show_int :: "int \<Rightarrow> string" where
  "show_int i = (if i < 0 then CHR ''-'' # show_nat (nat (- i)) else show_nat (nat i))"

section \<open>The provider\<close>

definition getDomain :: "string \<Rightarrow> string" where
  "getDomain zone = TrimSuffix zone ''.''"

definition getHostname :: "string \<Rightarrow> string \<Rightarrow> string" where
  "getHostname zone name = TrimSuffix (TrimSuffix name zone) ''.''"

definition getApiHost :: string where
  "getApiHost = ''https://www.namesilo.com/api''"

text \<open>\<^verbatim>\<open>time.Second\<close>, in nanoseconds.\<close>

definition Second :: "64 word" where
  "Second = 1000000000"

subsection \<open>GetRecords\<close>

text \<open>
  The body of the loop at lines 82 to 91: one decoded element becomes one record, the
  host name as decoded and the TTL multiplied (with wrap-around) into nanoseconds.
\<close>

definition to_Record :: "resource_record \<Rightarrow> Record" where
  "to_Record record =
     \<lparr>ID = rr_record_id record, Type = rr_type record, Name = rr_host record,
      Value = rr_value record, TTL = rr_ttl record * Second,
      Priority = rr_distance record\<rparr>"

definition list_url :: "Provider \<Rightarrow> string \<Rightarrow> string" where
  "list_url p zone =
     getApiHost @ ''/dnsListRecords?version=1&type=xml&key='' @ APIToken p @
     ''&domain='' @ getDomain zone"

text \<open>
  Every operation takes the requests issued so far and returns them extended by its own.
  A request counts as issued when it is handed to \<^verbatim>\<open>client.Do\<close>.
\<close>

definition GetRecords ::
  "env \<Rightarrow> Provider \<Rightarrow> string list \<Rightarrow> string \<Rightarrow> Record list result \<times> string list" where
  "GetRecords e p log zone =
     (let req_url = list_url p zone in
      if \<not> new_request e req_url then (Err RequestError, log)
      else
        (case client_do e log req_url of
           DoFailed \<Rightarrow> (Err TransportError, log @ [req_url])
         | Response status body read_ok \<Rightarrow>
             if status \<noteq> 200 then (Err (HTTPStatusError status body), log @ [req_url])
             else if \<not> read_ok then (Err ReadError, log @ [req_url])
             else
               (case unmarshal_records e body of
                  None \<Rightarrow> (Fatal, log @ [req_url])
                | Some rrs \<Rightarrow> (Ok (map to_Record rrs), log @ [req_url]))))"

subsection \<open>One acknowledged request\<close>

text \<open>
  \<^verbatim>\<open>AppendRecords\<close> (lines 118 to 153), the update loop of \<^verbatim>\<open>SetRecords\<close> (lines
  216 to 251) and the loop of \<^verbatim>\<open>DeleteRecords\<close> (lines 285 to 320) run the same
  steps on their URL: build the request, send it, read the body, check the HTTP status,
  decode the acknowledgement, check its code against 300. They differ in the text of
  their error messages only. \<open>None\<close> means that the request was acknowledged.
\<close>

definition ack_request :: "env \<Rightarrow> string list \<Rightarrow> string \<Rightarrow> error option \<times> string list" where
  "ack_request e log req_url =
     (if \<not> new_request e req_url then (Some RequestError, log)
      else
        (case client_do e log req_url of
           DoFailed \<Rightarrow> (Some TransportError, log @ [req_url])
         | Response status body read_ok \<Rightarrow>
             if \<not> read_ok then (Some ReadError, log @ [req_url])
             else if status \<noteq> 200 then (Some (HTTPStatusError status body), log @ [req_url])
             else
               (case unmarshal_reply e body of
                  None \<Rightarrow> (Some DecodeError, log @ [req_url])
                | Some (code, detail) \<Rightarrow>
                    if code \<noteq> 300 then (Some (RegistrarError code detail), log @ [req_url])
                    else (None, log @ [req_url]))))"

subsection \<open>AppendRecords\<close>

definition rrttl :: "Record \<Rightarrow> string" where
  "rrttl record =
     (if TTL record \<noteq> 0 then ''&rrttl='' @ show_int (sint (TTL record) sdiv sint Second)
      else '''')"

definition rrdistance :: "Record \<Rightarrow> string" where
  "rrdistance record =
     (if Priority record \<noteq> 0 then ''&rrdistance='' @ show_int (sint (Priority record))
      else '''')"

definition add_url :: "Provider \<Rightarrow> string \<Rightarrow> Record \<Rightarrow> string" where
  "add_url p zone record =
     getApiHost @ ''/dnsAddRecord?version=1&type=xml&key='' @ APIToken p @
     ''&domain='' @ getDomain zone @ ''&rrtype='' @ Type record @
     ''&rrhost='' @ getHostname zone (Name record) @ ''&rrvalue='' @ Value record @
     rrttl record @ rrdistance record"

text \<open>
  The loop of \<^verbatim>\<open>AppendRecords\<close>: the records still to create, the records appended so
  far, the requests issued so far.
\<close>

fun append_loop ::
  "env \<Rightarrow> Provider \<Rightarrow> string \<Rightarrow> Record list \<Rightarrow> Record list \<Rightarrow> string list \<Rightarrow>
   Record list result \<times> string list" where
  "append_loop e p zone [] appendedRecords log = (Ok appendedRecords, log)"
| "append_loop e p zone (record # records) appendedRecords log =
     (case ack_request e log (add_url p zone record) of
        (Some err, log') \<Rightarrow> (Err err, log')
      | (None, log') \<Rightarrow> append_loop e p zone records (appendedRecords @ [record]) log')"

definition AppendRecords ::
  "env \<Rightarrow> Provider \<Rightarrow> string list \<Rightarrow> string \<Rightarrow> Record list \<Rightarrow>
   Record list result \<times> string list" where
  "AppendRecords e p log zone records = append_loop e p zone records [] log"

subsection \<open>SetRecords\<close>

text \<open>
  The inner loop at lines 177 to 187, for one desired record without an ID. The
  \<^verbatim>\<open>range\<close> clause evaluates the slice once: the fourth argument is the part of it
  not yet visited and \<open>i\<close> the index of its head. The state is the triple of
  \<^verbatim>\<open>currentRecords\<close>, \<^verbatim>\<open>updateRecords\<close> and \<^verbatim>\<open>appendRecords\<close>. On a match the
  element at \<open>i\<close> is cut out of \<^verbatim>\<open>currentRecords\<close> and the loop is left; otherwise the
  record is queued for creation when \<open>i\<close> is the last index.
\<close>

fun set_scan ::
  "string \<Rightarrow> Record \<Rightarrow> nat \<Rightarrow> Record list \<Rightarrow>
   Record list \<times> Record list \<times> Record list \<Rightarrow> Record list \<times> Record list \<times> Record list" where
  "set_scan zone record i [] st = st"
| "set_scan zone record i (currentRecord # rest) (currentRecords, updateRecords, appendRecords) =
     (if Type currentRecord = Type record \<and>
         getHostname zone (Name currentRecord) = getHostname zone (Name record)
      then (take i currentRecords @ drop (i + 1) currentRecords,
            updateRecords @ [record\<lparr>ID := ID currentRecord\<rparr>],
            appendRecords)
      else set_scan zone record (i + 1) rest
             (currentRecords, updateRecords,
              if int i = int (length currentRecords) - 1 then appendRecords @ [record]
              else appendRecords))"

text \<open>The outer loop at lines 175 to 192.\<close>

fun set_partition ::
  "string \<Rightarrow> Record list \<Rightarrow>
   Record list \<times> Record list \<times> Record list \<Rightarrow> Record list \<times> Record list \<times> Record list" where
  "set_partition zone [] st = st"
| "set_partition zone (record # records) (currentRecords, updateRecords, appendRecords) =
     set_partition zone records
       (if ID record = '''' then
          set_scan zone record 0 currentRecords (currentRecords, updateRecords, appendRecords)
        else (currentRecords, updateRecords @ [record], appendRecords))"

text \<open>
  The builtin \<^verbatim>\<open>copy(dst, src)\<close>: it overwrites the first
  \<open>min (length dst) (length src)\<close> elements of \<open>dst\<close> and never grows it.
\<close>

definition go_copy :: "'a list \<Rightarrow> 'a list \<Rightarrow> 'a list" where
  "go_copy dst src =
     take (min (length dst) (length src)) src @ drop (min (length dst) (length src)) dst"

definition update_url :: "Provider \<Rightarrow> string \<Rightarrow> Record \<Rightarrow> string" where
  "update_url p zone record =
     getApiHost @ ''/dnsUpdateRecord?version=1&type=xml&key='' @ APIToken p @
     ''&domain='' @ getDomain zone @ ''&rrid='' @ ID record @
     ''&rrhost='' @ getHostname zone (Name record) @ ''&rrvalue='' @ Value record @
     rrdistance record @ rrttl record"

text \<open>The loop at lines 201 to 254.\<close>

fun update_loop ::
  "env \<Rightarrow> Provider \<Rightarrow> string \<Rightarrow> Record list \<Rightarrow> Record list \<Rightarrow> string list \<Rightarrow>
   Record list result \<times> string list" where
  "update_loop e p zone [] updatedRecords log = (Ok updatedRecords, log)"
| "update_loop e p zone (record # records) updatedRecords log =
     (case ack_request e log (update_url p zone record) of
        (Some err, log') \<Rightarrow> (Err err, log')
      | (None, log') \<Rightarrow> update_loop e p zone records (updatedRecords @ [record]) log')"

text \<open>
  \<^verbatim>\<open>updatedRecords\<close> is declared without a value at line 194, so it is the empty
  slice when line 199 copies \<^verbatim>\<open>appendedRecords\<close> into it.
\<close>

definition SetRecords ::
  "env \<Rightarrow> Provider \<Rightarrow> string list \<Rightarrow> string \<Rightarrow> Record list \<Rightarrow>
   Record list result \<times> string list" where
  "SetRecords e p log zone records =
     (case GetRecords e p log zone of
        (Err err, log1) \<Rightarrow> (Err err, log1)
      | (Fatal, log1) \<Rightarrow> (Fatal, log1)
      | (Ok currentRecords, log1) \<Rightarrow>
          (case set_partition zone records (currentRecords, [], []) of
             (currentRecords', updateRecords, appendRecords) \<Rightarrow>
               (case AppendRecords e p log1 zone appendRecords of
                  (Err err, log2) \<Rightarrow> (Err err, log2)
                | (Fatal, log2) \<Rightarrow> (Fatal, log2)
                | (Ok appendedRecords, log2) \<Rightarrow>
                    update_loop e p zone updateRecords (go_copy [] appendedRecords) log2)))"

subsection \<open>DeleteRecords\<close>

text \<open>
  The inner loop at lines 274 to 280, for one requested record; the state is the pair of
  \<^verbatim>\<open>currentRecords\<close> and \<^verbatim>\<open>deleteRecords\<close>.
\<close>

fun delete_scan ::
  "string \<Rightarrow> Record \<Rightarrow> nat \<Rightarrow> Record list \<Rightarrow>
   Record list \<times> Record list \<Rightarrow> Record list \<times> Record list" where
  "delete_scan zone record i [] st = st"
| "delete_scan zone record i (currentRecord # rest) (currentRecords, deleteRecords) =
     (if Type currentRecord = Type record \<and>
         getHostname zone (Name currentRecord) = getHostname zone (Name record)
      then (take i currentRecords @ drop (i + 1) currentRecords,
            deleteRecords @ [currentRecord])
      else delete_scan zone record (i + 1) rest (currentRecords, deleteRecords))"

text \<open>The outer loop at lines 273 to 281.\<close>

fun delete_match ::
  "string \<Rightarrow> Record list \<Rightarrow> Record list \<times> Record list \<Rightarrow> Record list \<times> Record list" where
  "delete_match zone [] st = st"
| "delete_match zone (record # records) (currentRecords, deleteRecords) =
     delete_match zone records
       (delete_scan zone record 0 currentRecords (currentRecords, deleteRecords))"

definition delete_url :: "Provider \<Rightarrow> string \<Rightarrow> Record \<Rightarrow> string" where
  "delete_url p zone record =
     getApiHost @ ''/dnsDeleteRecord?version=1&type=xml&key='' @ APIToken p @
     ''&domain='' @ getDomain zone @ ''&rrid='' @ ID record"

text \<open>The loop at lines 283 to 323.\<close>

fun delete_loop ::
  "env \<Rightarrow> Provider \<Rightarrow> string \<Rightarrow> Record list \<Rightarrow> Record list \<Rightarrow> string list \<Rightarrow>
   Record list result \<times> string list" where
  "delete_loop e p zone [] deletedRecords log = (Ok deletedRecords, log)"
| "delete_loop e p zone (record # records) deletedRecords log =
     (case ack_request e log (delete_url p zone record) of
        (Some err, log') \<Rightarrow> (Err err, log')
      | (None, log') \<Rightarrow> delete_loop e p zone records (deletedRecords @ [record]) log')"

definition DeleteRecords ::
  "env \<Rightarrow> Provider \<Rightarrow> string list \<Rightarrow> string \<Rightarrow> Record list \<Rightarrow>
   Record list result \<times> string list" where
  "DeleteRecords e p log zone records =
     (case GetRecords e p log zone of
        (Err err, log1) \<Rightarrow> (Err err, log1)
      | (Fatal, log1) \<Rightarrow> (Fatal, log1)
      | (Ok currentRecords, log1) \<Rightarrow>
          (case delete_match zone records (currentRecords, []) of
             (currentRecords', deleteRecords) \<Rightarrow>
               delete_loop e p zone deleteRecords [] log1))"

section \<open>Notions used to state the properties\<close>

text \<open>
  A request is acknowledged when it can be built and sent, its body is read, the HTTP
  status is 200 and the body decodes to an acknowledgement with code 300. This is what
  a successful registrar call means; it is stated on its own, not through
  \<open>ack_request\<close>.
\<close>

definition acknowledged :: "env \<Rightarrow> string list \<Rightarrow> string \<Rightarrow> bool" where
  "acknowledged e log req_url =
     (new_request e req_url \<and>
      (case client_do e log req_url of
         DoFailed \<Rightarrow> False
       | Response status body read_ok \<Rightarrow>
           read_ok \<and> status = 200 \<and>
           (case unmarshal_reply e body of
              None \<Rightarrow> False
            | Some (code, detail) \<Rightarrow> code = 300)))"

text \<open>All of a sequence of requests, sent one after the other, are acknowledged.\<close>

fun all_acknowledged :: "env \<Rightarrow> string list \<Rightarrow> string list \<Rightarrow> bool" where
  "all_acknowledged e log [] = True"
| "all_acknowledged e log (u # us) =
     (acknowledged e log u \<and> all_acknowledged e (log @ [u]) us)"

text \<open>
  The answer to a request is an HTTP 200 response whose body is read and decodes to an
  acknowledgement with the given code and detail, and the code is not 300.
\<close>

definition rejected :: "env \<Rightarrow> string list \<Rightarrow> string \<Rightarrow> int \<Rightarrow> string \<Rightarrow> bool" where
  "rejected e log req_url code detail =
     (case client_do e log req_url of
        DoFailed \<Rightarrow> False
      | Response status body read_ok \<Rightarrow>
          read_ok \<and> status = 200 \<and> unmarshal_reply e body = Some (code, detail) \<and>
          code \<noteq> 300)"

text \<open>
  The three request loops have one shape; \<open>ack_loop\<close> is that shape with the URL of a
  record as a parameter. It serves the proofs only: each loop above is shown to be an
  instance of it.
\<close>

fun ack_loop ::
  "env \<Rightarrow> ('a \<Rightarrow> string) \<Rightarrow> 'a list \<Rightarrow> 'a list \<Rightarrow> string list \<Rightarrow>
   'a list result \<times> string list" where
  "ack_loop e url [] acc log = (Ok acc, log)"
| "ack_loop e url (x # xs) acc log =
     (case ack_request e log (url x) of
        (Some err, log') \<Rightarrow> (Err err, log')
      | (None, log') \<Rightarrow> ack_loop e url xs (acc @ [x]) log')"

text \<open>
  The test of lines 178 and 275 as a relation between a desired (or requested) record
  and a current one: equal types and equal host names after \<open>getHostname\<close>.
\<close>

definition same_key :: "string \<Rightarrow> Record \<Rightarrow> Record \<Rightarrow> bool" where
  "same_key zone record currentRecord =
     (Type currentRecord = Type record \<and>
      getHostname zone (Name currentRecord) = getHostname zone (Name record))"

definition same_record_key :: "string \<Rightarrow> Record \<Rightarrow> Record \<Rightarrow> bool" where
  "same_record_key zone r r' = (ID r = ID r' \<and> same_key zone r r')"

text \<open>
  Matching as the specification words it for \<^verbatim>\<open>Delete\<close>: for each requested record
  find the first remaining current record with the same type and normalized name; if
  there is one, take it out of the pool and queue it; if there is none, skip the
  requested record. \<open>first_match_queue\<close> is the queue, \<open>pool_after\<close> what remains of
  the pool.
\<close>

fun first_match_queue :: "string \<Rightarrow> Record list \<Rightarrow> Record list \<Rightarrow> Record list" where
  "first_match_queue zone pool [] = []"
| "first_match_queue zone pool (record # records) =
     (case find (same_key zone record) pool of
        None \<Rightarrow> first_match_queue zone pool records
      | Some currentRecord \<Rightarrow>
          currentRecord # first_match_queue zone (remove1 currentRecord pool) records)"

fun pool_after :: "string \<Rightarrow> Record list \<Rightarrow> Record list \<Rightarrow> Record list" where
  "pool_after zone pool [] = pool"
| "pool_after zone pool (record # records) =
     (case find (same_key zone record) pool of
        None \<Rightarrow> pool_after zone pool records
      | Some currentRecord \<Rightarrow> pool_after zone (remove1 currentRecord pool) records)"

section \<open>Example registrars and records\<close>

definition example_provider :: Provider where
  "example_provider = \<lparr>APIToken = ''token''\<rparr>"

text \<open>
  A registrar that lists the given records and acknowledges every request with code
  300.
\<close>

definition accepting :: "resource_record list \<Rightarrow> env" where
  "accepting rrs =
     \<lparr>new_request = (\<lambda>url. True),
      client_do = (\<lambda>log url. Response 200 ''<namesilo/>'' True),
      unmarshal_records = (\<lambda>body. Some rrs),
      unmarshal_reply = (\<lambda>body. Some (300, ''success''))\<rparr>"

text \<open>
  A registrar that lists the given records and answers every request with HTTP status
  200 and the acknowledgement code 280.
\<close>

definition rejecting :: "resource_record list \<Rightarrow> env" where
  "rejecting rrs =
     \<lparr>new_request = (\<lambda>url. True),
      client_do = (\<lambda>log url. Response 200 ''<namesilo/>'' True),
      unmarshal_records = (\<lambda>body. Some rrs),
      unmarshal_reply = (\<lambda>body. Some (280, ''refused''))\<rparr>"

text \<open>A registrar whose answers, an unclosed element, do not decode.\<close>

definition undecodable :: env where
  "undecodable =
     \<lparr>new_request = (\<lambda>url. True),
      client_do = (\<lambda>log url. Response 200 ''<namesilo>'' True),
      unmarshal_records = (\<lambda>body. None),
      unmarshal_reply = (\<lambda>body. None)\<rparr>"

definition www_rr :: resource_record where
  "www_rr =
     \<lparr>rr_record_id = ''1'', rr_type = ''A'', rr_host = ''www.example.com'',
      rr_value = ''192.0.2.1'', rr_ttl = 3600, rr_distance = 0\<rparr>"

definition acme_rr :: resource_record where
  "acme_rr =
     \<lparr>rr_record_id = ''2'', rr_type = ''TXT'', rr_host = ''_acme.example.com'',
      rr_value = ''old'', rr_ttl = 3600, rr_distance = 0\<rparr>"

definition acme_rr' :: resource_record where
  "acme_rr' =
     \<lparr>rr_record_id = ''3'', rr_type = ''TXT'', rr_host = ''_acme.example.com'',
      rr_value = ''older'', rr_ttl = 3600, rr_distance = 0\<rparr>"

definition acme_txt :: Record where
  "acme_txt =
     \<lparr>ID = '''', Type = ''TXT'', Name = ''_acme.example.com'', Value = ''v'',
      TTL = 3600 * Second, Priority = 0\<rparr>"

definition www_request :: Record where
  "www_request =
     \<lparr>ID = '''', Type = ''A'', Name = ''www.example.com'', Value = '''',
      TTL = 0, Priority = 0\<rparr>"

definition missing_request :: Record where
  "missing_request =
     \<lparr>ID = '''', Type = ''A'', Name = ''missing.example.com'', Value = '''',
      TTL = 0, Priority = 0\<rparr>"

text \<open>The record of \<^verbatim>\<open>test/main.go\<close>, with its name in full and relative to the zone.\<close>

definition test_full :: Record where
  "test_full =
     \<lparr>ID = '''', Type = ''TXT'', Name = ''_test.matjes.life'', Value = ''text'',
      TTL = 3600 * Second, Priority = 0\<rparr>"

definition test_relative :: Record where
  "test_relative =
     \<lparr>ID = '''', Type = ''TXT'', Name = ''_test'', Value = ''text'',
      TTL = 3600 * Second, Priority = 0\<rparr>"

definition test_rr :: resource_record where
  "test_rr =
     \<lparr>rr_record_id = ''9'', rr_type = ''TXT'', rr_host = ''_test.matjes.life'',
      rr_value = ''text'', rr_ttl = 3600, rr_distance = 0\<rparr>"

text \<open>The second record of \<^verbatim>\<open>test/main.go\<close>, as the registrar lists it.\<close>

definition acme_life_rr :: resource_record where
  "acme_life_rr =
     \<lparr>rr_record_id = ''8'', rr_type = ''TXT'', rr_host = ''_acme.matjes.life'',
      rr_value = ''token'', rr_ttl = 3600, rr_distance = 0\<rparr>"

text \<open>
  Two records that differ in \<open>Value\<close> and \<open>TTL\<close>: the value of the first ends in the
  text of a TTL parameter.
\<close>

definition injecting_record :: Record where
  "injecting_record =
     \<lparr>ID = ''7'', Type = ''TXT'', Name = ''a'', Value = ''x&rrttl=5'',
      TTL = 0, Priority = 0\<rparr>"

definition plain_record :: Record where
  "plain_record =
     \<lparr>ID = ''7'', Type = ''TXT'', Name = ''a'', Value = ''x'',
      TTL = 5 * Second, Priority = 0\<rparr>"

section \<open>The request loops\<close>

text \<open>Each loop of the source is the generic loop at its URL.\<close>

lemma append_loop_ack_loop: "append_loop e p zone rs acc log = ack_loop e (add_url p zone) rs acc log"
  by (induction rs arbitrary: acc log) (auto split: prod.splits option.splits)

lemma update_loop_ack_loop: "update_loop e p zone rs acc log = ack_loop e (update_url p zone) rs acc log"
  by (induction rs arbitrary: acc log) (auto split: prod.splits option.splits)

lemma delete_loop_ack_loop: "delete_loop e p zone rs acc log = ack_loop e (delete_url p zone) rs acc log"
  by (induction rs arbitrary: acc log) (auto split: prod.splits option.splits)

text \<open>One request: when it is acknowledged, what it logs, which error it returns.\<close>

lemma ack_request_acknowledged:
  "acknowledged e log u \<Longrightarrow> ack_request e log u = (None, log @ [u])"
  by (auto simp: acknowledged_def ack_request_def split: http_reply.splits option.splits)

lemma ack_request_None:
  "ack_request e log u = (None, log') \<Longrightarrow> acknowledged e log u \<and> log' = log @ [u]"
  by (auto simp: acknowledged_def ack_request_def split: http_reply.splits option.splits if_splits)

lemma ack_request_Some:
  "ack_request e log u = (Some err, log') \<Longrightarrow>
     \<not> acknowledged e log u \<and> (log' = log \<or> log' = log @ [u])"
  by (auto simp: acknowledged_def ack_request_def split: http_reply.splits option.splits if_splits)

lemma ack_request_rejected:
  "ack_request e log u = (x, log @ [u]) \<Longrightarrow> rejected e log u code detail \<Longrightarrow>
     x = Some (RegistrarError code detail)"
  by (auto simp: rejected_def ack_request_def split: http_reply.splits option.splits if_splits)

lemma acknowledged_not_rejected: "acknowledged e log u \<Longrightarrow> \<not> rejected e log u code detail"
  by (auto simp: rejected_def acknowledged_def split: http_reply.splits option.splits)

text \<open>The loop: its result and its log, on success and on the first failure.\<close>

lemma ack_loop_all_acknowledged:
  "all_acknowledged e log (map url xs) \<Longrightarrow>
     ack_loop e url xs acc log = (Ok (acc @ xs), log @ map url xs)"
  by (induction xs arbitrary: acc log) (auto simp: ack_request_acknowledged)

lemma ack_loop_Ok:
  "ack_loop e url xs acc log = (Ok out, log') \<Longrightarrow>
     out = acc @ xs \<and> log' = log @ map url xs \<and> all_acknowledged e log (map url xs)"
proof (induction xs arbitrary: acc log)
  case Nil
  then show ?case by simp
next
  case (Cons x xs)
  obtain r l1 where a: "ack_request e log (url x) = (r, l1)" by force
  show ?case
  proof (cases r)
    case None
    with a have b: "acknowledged e log (url x)" "l1 = log @ [url x]"
      using ack_request_None by blast+
    from Cons.prems a None have "ack_loop e url xs (acc @ [x]) l1 = (Ok out, log')" by simp
    from Cons.IH [OF this] b show ?thesis by simp
  next
    case (Some err)
    with Cons.prems a show ?thesis by simp
  qed
qed

lemma ack_loop_Err:
  "ack_loop e url xs acc log = (Err err, log') \<Longrightarrow>
     \<exists>k < length xs. all_acknowledged e log (map url (take k xs)) \<and>
        ack_request e (log @ map url (take k xs)) (url (xs ! k)) = (Some err, log')"
proof (induction xs arbitrary: acc log)
  case Nil
  then show ?case by simp
next
  case (Cons x xs)
  obtain r l1 where a: "ack_request e log (url x) = (r, l1)" by force
  show ?case
  proof (cases r)
    case None
    with a have b: "acknowledged e log (url x)" "l1 = log @ [url x]"
      using ack_request_None by blast+
    from Cons.prems a None have "ack_loop e url xs (acc @ [x]) l1 = (Err err, log')" by simp
    from Cons.IH [OF this] obtain k where k: "k < length xs"
      "all_acknowledged e l1 (map url (take k xs))"
      "ack_request e (l1 @ map url (take k xs)) (url (xs ! k)) = (Some err, log')" by blast
    with b have "Suc k < length (x # xs) \<and> all_acknowledged e log (map url (take (Suc k) (x # xs))) \<and>
        ack_request e (log @ map url (take (Suc k) (x # xs))) (url ((x # xs) ! Suc k)) = (Some err, log')"
      by simp
    then show ?thesis by blast
  next
    case (Some err')
    with Cons.prems a have "ack_request e log (url x) = (Some err, log')" by simp
    then have "0 < length (x # xs) \<and> all_acknowledged e log (map url (take 0 (x # xs))) \<and>
        ack_request e (log @ map url (take 0 (x # xs))) (url ((x # xs) ! 0)) = (Some err, log')"
      by simp
    then show ?thesis by blast
  qed
qed

lemma ack_loop_not_Fatal: "fst (ack_loop e url xs acc log) \<noteq> Fatal"
  by (induction xs arbitrary: acc log) (auto split: prod.splits option.splits)

lemma ack_loop_log:
  "ack_loop e url xs acc log = (res, log') \<Longrightarrow> \<exists>k \<le> length xs. log' = log @ map url (take k xs)"
proof (induction xs arbitrary: acc log)
  case Nil
  then show ?case by simp
next
  case (Cons x xs)
  obtain r l1 where a: "ack_request e log (url x) = (r, l1)" by force
  show ?case
  proof (cases r)
    case None
    with a have b: "l1 = log @ [url x]"
      using ack_request_None by blast
    from Cons.prems a None have "ack_loop e url xs (acc @ [x]) l1 = (res, log')" by simp
    from Cons.IH [OF this] obtain k where "k \<le> length xs" "log' = l1 @ map url (take k xs)" by blast
    with b have "Suc k \<le> length (x # xs) \<and> log' = log @ map url (take (Suc k) (x # xs))" by simp
    then show ?thesis by blast
  next
    case (Some err')
    with Cons.prems a have "log' = l1" by simp
    with a Some have "log' = log \<or> log' = log @ [url x]" using ack_request_Some by blast
    then have "(0 \<le> length (x # xs) \<and> log' = log @ map url (take 0 (x # xs))) \<or>
      (1 \<le> length (x # xs) \<and> log' = log @ map url (take 1 (x # xs)))" by auto
    then show ?thesis by blast
  qed
qed

lemma ack_loop_rejected:
  "ack_loop e url xs acc log = (res, log') \<Longrightarrow> length log \<le> i \<Longrightarrow> i < length log' \<Longrightarrow>
   rejected e (take i log') (log' ! i) code detail \<Longrightarrow> res = Err (RegistrarError code detail)"
proof (induction xs arbitrary: acc log)
  case Nil
  then show ?case by simp
next
  case (Cons x xs)
  obtain r l1 where a: "ack_request e log (url x) = (r, l1)" by force
  show ?case
  proof (cases r)
    case None
    with a have b: "acknowledged e log (url x)" "l1 = log @ [url x]"
      using ack_request_None by blast+
    from Cons.prems a None have c: "ack_loop e url xs (acc @ [x]) l1 = (res, log')" by simp
    from ack_loop_log [OF c] b obtain k where k: "log' = log @ url x # map url (take k xs)" by auto
    have "i \<noteq> length log"
    proof
      assume "i = length log"
      with k have "take i log' = log" "log' ! i = url x" by (simp_all add: nth_append)
      with Cons.prems(4) b(1) show False using acknowledged_not_rejected by metis
    qed
    with Cons.prems(2) b have "length l1 \<le> i" by simp
    from Cons.IH [OF c this Cons.prems(3) Cons.prems(4)] show ?thesis .
  next
    case (Some err)
    with Cons.prems a have d: "res = Err err" "log' = l1" by simp_all
    from a Some have "l1 = log \<or> l1 = log @ [url x]" using ack_request_Some by blast
    with d Cons.prems(2,3) have l: "l1 = log @ [url x]" "i = length log" by auto
    with d have "take i log' = log" "log' ! i = url x" by simp_all
    with Cons.prems(4) have "rejected e log (url x) code detail" by simp
    with a l have "r = Some (RegistrarError code detail)" using ack_request_rejected by blast
    with Some d show ?thesis by simp
  qed
qed

section \<open>Requests of the operations\<close>

lemma GetRecords_log:
  "GetRecords e p log zone = (res, log') \<Longrightarrow> log' = log \<or> log' = log @ [list_url p zone]"
  by (auto simp: GetRecords_def Let_def split: if_splits http_reply.splits option.splits)

lemma GetRecords_Ok:
  "GetRecords e p log zone = (Ok rs, log') \<Longrightarrow>
     log' = log @ [list_url p zone] \<and>
     (\<exists>body rrs. client_do e log (list_url p zone) = Response 200 body True \<and>
        unmarshal_records e body = Some rrs \<and> rs = map to_Record rrs)"
  by (auto simp: GetRecords_def Let_def split: if_splits http_reply.splits option.splits)

lemma AppendRecords_rejected:
  assumes "AppendRecords e p log zone records = (res, log')"
    and "length log \<le> i" and "i < length log'"
    and "rejected e (take i log') (log' ! i) code detail"
  shows "res = Err (RegistrarError code detail)"
  using assms unfolding AppendRecords_def append_loop_ack_loop by (rule ack_loop_rejected)

lemma ack_loop_extends:
  assumes "ack_loop e url xs acc log = (res, log')" and "i < length log"
  shows "take i log' = take i log \<and> log' ! i = log ! i"
proof -
  from ack_loop_log [OF assms(1)] obtain k where "log' = log @ map url (take k xs)" by blast
  with assms(2) show ?thesis by (simp add: nth_append)
qed

lemma SetRecords_rejected:
  assumes "SetRecords e p log zone records = (res, log')"
    and "length log < i" and "i < length log'"
    and "rejected e (take i log') (log' ! i) code detail"
  shows "res = Err (RegistrarError code detail)"
proof -
  obtain r1 log1 where g: "GetRecords e p log zone = (r1, log1)" by force
  show ?thesis
  proof (cases r1)
    case (Ok currentRecords)
    with g have l1: "log1 = log @ [list_url p zone]" using GetRecords_Ok by blast
    obtain pool upd app where part: "set_partition zone records (currentRecords, [], []) = (pool, upd, app)"
      by (metis prod_cases3)
    obtain r2 log2 where a: "AppendRecords e p log1 zone app = (r2, log2)" by force
    show ?thesis
    proof (cases r2)
      case (Ok appended)
      with assms(1) g \<open>r1 = Ok currentRecords\<close> part a
      have u: "ack_loop e (update_url p zone) upd (go_copy [] appended) log2 = (res, log')"
        by (simp add: SetRecords_def update_loop_ack_loop)
      show ?thesis
      proof (cases "i < length log2")
        case True
        with ack_loop_extends [OF u] have "take i log' = take i log2" "log' ! i = log2 ! i" by simp_all
        with assms(4) have "rejected e (take i log2) (log2 ! i) code detail" by simp
        with a True assms(2) l1 have "r2 = Err (RegistrarError code detail)"
          using AppendRecords_rejected [of e p log1 zone app r2 log2 i code detail] by simp
        with Ok show ?thesis by simp
      next
        case False
        then have "length log2 \<le> i" by simp
        from ack_loop_rejected [OF u this assms(3) assms(4)] show ?thesis .
      qed
    next
      case (Err err)
      with assms(1) g \<open>r1 = Ok currentRecords\<close> part a have "res = r2" "log' = log2"
        by (simp_all add: SetRecords_def)
      with a assms l1 show ?thesis
        using AppendRecords_rejected [of e p log1 zone app r2 log2 i code detail] by simp
    next
      case Fatal
      with a show ?thesis
        using ack_loop_not_Fatal [of e "add_url p zone" app "[]" log1]
        by (simp add: AppendRecords_def append_loop_ack_loop)
    qed
  next
    case (Err err)
    with assms(1) g have "log' = log1" by (simp add: SetRecords_def)
    with g assms(2,3) show ?thesis using GetRecords_log by fastforce
  next
    case Fatal
    with assms(1) g have "log' = log1" by (simp add: SetRecords_def)
    with g assms(2,3) show ?thesis using GetRecords_log by fastforce
  qed
qed

lemma DeleteRecords_rejected:
  assumes "DeleteRecords e p log zone records = (res, log')"
    and "length log < i" and "i < length log'"
    and "rejected e (take i log') (log' ! i) code detail"
  shows "res = Err (RegistrarError code detail)"
proof -
  obtain r1 log1 where g: "GetRecords e p log zone = (r1, log1)" by force
  show ?thesis
  proof (cases r1)
    case (Ok currentRecords)
    with g have l1: "log1 = log @ [list_url p zone]" using GetRecords_Ok by blast
    obtain pool dels where part: "delete_match zone records (currentRecords, []) = (pool, dels)"
      by force
    with assms(1) g Ok have u: "ack_loop e (delete_url p zone) dels [] log1 = (res, log')"
      by (simp add: DeleteRecords_def delete_loop_ack_loop)
    from assms(2) l1 have "length log1 \<le> i" by simp
    from ack_loop_rejected [OF u this assms(3) assms(4)] show ?thesis .
  next
    case (Err err)
    with assms(1) g have "log' = log1" by (simp add: DeleteRecords_def)
    with g assms(2,3) show ?thesis using GetRecords_log by fastforce
  next
    case Fatal
    with assms(1) g have "log' = log1" by (simp add: DeleteRecords_def)
    with g assms(2,3) show ?thesis using GetRecords_log by fastforce
  qed
qed

section \<open>The matching loops\<close>

text \<open>
  The inner loops are a search for the first matching element of the pool, which is
  then removed; the index arithmetic of the source disappears.
\<close>

lemma find_Some_holds: "find P xs = Some c \<Longrightarrow> P c"
  by (auto simp: find_Some_iff)

lemma delete_scan_Cons:
  "delete_scan zone r i (x # xs) (cur, dels) =
     (if same_key zone r x then (take i cur @ drop (i + 1) cur, dels @ [x])
      else delete_scan zone r (i + 1) xs (cur, dels))"
  by (simp add: same_key_def)

lemma delete_scan_eq:
  "length pre = i \<Longrightarrow>
   delete_scan zone r i rest (pre @ rest, dels) =
     (case find (same_key zone r) rest of
        None \<Rightarrow> (pre @ rest, dels)
      | Some c \<Rightarrow> (pre @ remove1 c rest, dels @ [c]))"
proof (induction rest arbitrary: pre i)
  case Nil
  then show ?case by simp
next
  case (Cons x xs)
  show ?case
  proof (cases "same_key zone r x")
    case True
    with Cons.prems show ?thesis by (simp only: delete_scan_Cons) simp
  next
    case False
    from Cons.prems have "length (pre @ [x]) = i + 1" by simp
    from Cons.IH [OF this]
    have ih: "delete_scan zone r (i + 1) xs (pre @ x # xs, dels) =
      (case find (same_key zone r) xs of
         None \<Rightarrow> (pre @ x # xs, dels)
       | Some c \<Rightarrow> (pre @ x # remove1 c xs, dels @ [c]))"
      by (simp cong: option.case_cong)
    show ?thesis
    proof (cases "find (same_key zone r) xs")
      case None
      with False ih show ?thesis by (simp only: delete_scan_Cons) simp
    next
      case (Some c)
      then have "same_key zone r c" by (rule find_Some_holds)
      with False have "x \<noteq> c" by auto
      with Some False ih show ?thesis by (simp only: delete_scan_Cons) simp
    qed
  qed
qed

lemma delete_scan_0:
  "delete_scan zone r 0 cur (cur, dels) =
     (case find (same_key zone r) cur of
        None \<Rightarrow> (cur, dels)
      | Some c \<Rightarrow> (remove1 c cur, dels @ [c]))"
  using delete_scan_eq [of "[]" 0 zone r cur dels] by (simp cong: option.case_cong)

lemma delete_match_eq:
  "delete_match zone rs (cur, dels) = (pool_after zone cur rs, dels @ first_match_queue zone cur rs)"
  by (induction rs arbitrary: cur dels) (auto simp: delete_scan_0 split: option.splits)

lemma find_Some_mem: "find P xs = Some c \<Longrightarrow> c \<in> set xs"
  by (auto simp: find_Some_iff)

lemma first_match_queue_mset:
  "mset (first_match_queue zone cur rs) + mset (pool_after zone cur rs) = mset cur"
proof (induction rs arbitrary: cur)
  case Nil
  then show ?case by simp
next
  case (Cons r rs)
  show ?case
  proof (cases "find (same_key zone r) cur")
    case None
    with Cons.IH [of cur] show ?thesis by simp
  next
    case (Some c)
    then have "c \<in> set cur" by (rule find_Some_mem)
    with Some Cons.IH [of "remove1 c cur"] show ?thesis by simp
  qed
qed

lemma set_scan_Cons:
  "set_scan zone r i (x # xs) (cur, upd, app) =
     (if same_key zone r x
      then (take i cur @ drop (i + 1) cur, upd @ [r\<lparr>ID := ID x\<rparr>], app)
      else set_scan zone r (i + 1) xs
             (cur, upd, if int i = int (length cur) - 1 then app @ [r] else app))"
  by (simp add: same_key_def)

lemma set_scan_eq:
  "length pre = i \<Longrightarrow>
   set_scan zone r i rest (pre @ rest, upd, app) =
     (case find (same_key zone r) rest of
        None \<Rightarrow> (pre @ rest, upd, if rest = [] then app else app @ [r])
      | Some c \<Rightarrow> (pre @ remove1 c rest, upd @ [r\<lparr>ID := ID c\<rparr>], app))"
proof (induction rest arbitrary: pre i app)
  case Nil
  then show ?case by simp
next
  case (Cons x xs)
  show ?case
  proof (cases "same_key zone r x")
    case True
    with Cons.prems show ?thesis by (simp only: set_scan_Cons) simp
  next
    case False
    from Cons.prems have len: "length (pre @ [x]) = i + 1" by simp
    have ih: "set_scan zone r (i + 1) xs (pre @ x # xs, upd, app') =
      (case find (same_key zone r) xs of
         None \<Rightarrow> (pre @ x # xs, upd, if xs = [] then app' else app' @ [r])
       | Some c \<Rightarrow> (pre @ x # remove1 c xs, upd @ [r\<lparr>ID := ID c\<rparr>], app'))" for app'
      using Cons.IH [OF len, of app'] by (simp cong: option.case_cong)
    from Cons.prems have last: "(int i = int (length (pre @ x # xs)) - 1) = (xs = [])"
      by auto
    show ?thesis
    proof (cases "find (same_key zone r) xs")
      case None
      with False ih last show ?thesis by (simp only: set_scan_Cons) simp
    next
      case (Some c)
      then have "same_key zone r c" by (rule find_Some_holds)
      with False have "x \<noteq> c" by auto
      from Some have "xs \<noteq> []" by auto
      with Some False ih last \<open>x \<noteq> c\<close> show ?thesis by (simp only: set_scan_Cons) simp
    qed
  qed
qed

lemma set_scan_0:
  "set_scan zone r 0 cur (cur, upd, app) =
     (case find (same_key zone r) cur of
        None \<Rightarrow> (cur, upd, if cur = [] then app else app @ [r])
      | Some c \<Rightarrow> (remove1 c cur, upd @ [r\<lparr>ID := ID c\<rparr>], app))"
  using set_scan_eq [of "[]" 0 zone r cur upd app] by (simp cong: option.case_cong)

text \<open>Who ends up where: the pool, the queue and the IDs as multisets.\<close>

lemma set_partition_Cons:
  "set_partition zone (r # rs) (cur, upd, app) =
     set_partition zone rs
       (if ID r \<noteq> '''' then (cur, upd @ [r], app)
        else (case find (same_key zone r) cur of
                None \<Rightarrow> (cur, upd, if cur = [] then app else app @ [r])
              | Some c \<Rightarrow> (remove1 c cur, upd @ [r\<lparr>ID := ID c\<rparr>], app)))"
  by (simp add: set_scan_0)

lemma mset_diff_remove1:
  assumes "c \<in> set cur" and "mset pool \<subseteq># mset (remove1 c cur)"
  shows "mset cur - mset pool = add_mset c (mset (remove1 c cur) - mset pool)"
  by (metis add_mset_remove_trivial assms(1,2) diff_single_trivial
    insert_DiffM2 mset_remove1 multi_self_add_other_not_self set_mset_mset
    subset_mset.add_diff_assoc2)

lemma mset_subset_remove1:
  assumes "mset pool \<subseteq># mset (remove1 c cur)"
  shows "mset pool \<subseteq># mset cur"
  by (metis assms diff_subset_eq_self mset_remove1 subset_mset.trans)

lemma set_partition_mset:
  "set_partition zone rs (cur, upd, app) = (pool, upd', app') \<Longrightarrow>
     mset pool \<subseteq># mset cur \<and>
     image_mset ID (mset upd') =
       image_mset ID (mset upd) + image_mset ID (mset (filter (\<lambda>r. ID r \<noteq> '''') rs)) +
       image_mset ID (mset cur - mset pool)"
proof (induction rs arbitrary: cur upd app)
  case Nil
  then show ?case by simp
next
  case (Cons r rs)
  show ?case
  proof (cases "ID r \<noteq> ''''")
    case True
    with Cons.prems have "set_partition zone rs (cur, upd @ [r], app) = (pool, upd', app')"
      by (simp only: set_partition_Cons) simp
    from Cons.IH [OF this] True show ?thesis by simp
  next
    case False
    show ?thesis
    proof (cases "find (same_key zone r) cur")
      case None
      with False Cons.prems
      have "set_partition zone rs (cur, upd, if cur = [] then app else app @ [r]) = (pool, upd', app')"
        by (simp only: set_partition_Cons) simp
      from Cons.IH [OF this] False show ?thesis by simp
    next
      case (Some c)
      then have c: "c \<in> set cur" by (rule find_Some_mem)
      from Some False Cons.prems
      have "set_partition zone rs (remove1 c cur, upd @ [r\<lparr>ID := ID c\<rparr>], app) = (pool, upd', app')"
        by (simp only: set_partition_Cons) simp
      from Cons.IH [OF this]
      have ih: "mset pool \<subseteq># mset (remove1 c cur)"
        "image_mset ID (mset upd') =
           image_mset ID (mset (upd @ [r\<lparr>ID := ID c\<rparr>])) +
           image_mset ID (mset (filter (\<lambda>r. ID r \<noteq> '''') rs)) +
           image_mset ID (mset (remove1 c cur) - mset pool)" by blast+
      from mset_diff_remove1 [OF c ih(1)] mset_subset_remove1 [OF ih(1)] ih(2) False
      show ?thesis by simp
    qed
  qed
qed

lemma delete_match_mset:
  "delete_match zone rs (cur, []) = (pool, dels) \<Longrightarrow> mset dels + mset pool = mset cur"
  using first_match_queue_mset [of zone cur rs] by (simp add: delete_match_eq)

text \<open>The loops see a record through its type and its normalized name only.\<close>

lemma same_key_find:
  "same_key zone r r' \<Longrightarrow> find (same_key zone r') cur = find (same_key zone r) cur"
proof -
  assume "same_key zone r r'"
  then have "same_key zone r' = same_key zone r" by (auto simp: same_key_def fun_eq_iff)
  then show ?thesis by simp
qed

lemma delete_match_same_key:
  "list_all2 (same_key zone) rs rs' \<Longrightarrow> delete_match zone rs st = delete_match zone rs' st"
proof (induction rs rs' arbitrary: st rule: list_all2_induct)
  case Nil
  then show ?case by simp
next
  case (Cons r rs r' rs')
  obtain cur dels where st: "st = (cur, dels)" by force
  from Cons.hyps(1) have "delete_scan zone r' 0 cur (cur, dels) = delete_scan zone r 0 cur (cur, dels)"
    by (simp only: delete_scan_0 same_key_find)
  with Cons.IH st show ?case by simp
qed

lemma set_partition_same_key:
  "list_all2 (same_record_key zone) rs rs' \<Longrightarrow>
   list_all2 (same_record_key zone) upd0 upd0' \<Longrightarrow>
   list_all2 (same_record_key zone) app0 app0' \<Longrightarrow>
   set_partition zone rs (cur, upd0, app0) = (pool, upd, app) \<Longrightarrow>
   set_partition zone rs' (cur, upd0', app0') = (pool', upd', app') \<Longrightarrow>
   pool = pool' \<and> list_all2 (same_record_key zone) upd upd' \<and>
   list_all2 (same_record_key zone) app app'"
proof (induction rs rs' arbitrary: cur upd0 upd0' app0 app0' rule: list_all2_induct)
  case Nil
  then show ?case by simp
next
  case (Cons r rs r' rs')
  from Cons.hyps(1) have id: "ID r = ID r'" and key: "same_key zone r r'"
    by (simp_all add: same_record_key_def)
  note f = same_key_find [OF key, of cur]
  show ?case
  proof (cases "ID r \<noteq> ''''")
    case True
    with Cons.prems(3) have a: "set_partition zone rs (cur, upd0 @ [r], app0) = (pool, upd, app)"
      by (simp only: set_partition_Cons) simp
    from True id Cons.prems(4)
    have b: "set_partition zone rs' (cur, upd0' @ [r'], app0') = (pool', upd', app')"
      by (simp only: set_partition_Cons) simp
    from Cons.prems(1) Cons.hyps(1)
    have "list_all2 (same_record_key zone) (upd0 @ [r]) (upd0' @ [r'])"
      by (simp add: list_all2_appendI)
    from Cons.IH [OF this Cons.prems(2) a b] show ?thesis .
  next
    case False
    show ?thesis
    proof (cases "find (same_key zone r) cur")
      case None
      with False Cons.prems(3)
      have a: "set_partition zone rs (cur, upd0, if cur = [] then app0 else app0 @ [r]) = (pool, upd, app)"
        by (simp only: set_partition_Cons) simp
      from None False id f Cons.prems(4)
      have b: "set_partition zone rs' (cur, upd0', if cur = [] then app0' else app0' @ [r']) = (pool', upd', app')"
        by (simp only: set_partition_Cons) simp
      from Cons.prems(2) Cons.hyps(1)
      have "list_all2 (same_record_key zone) (if cur = [] then app0 else app0 @ [r])
              (if cur = [] then app0' else app0' @ [r'])"
        by (simp add: list_all2_appendI)
      from Cons.IH [OF Cons.prems(1) this a b] show ?thesis .
    next
      case (Some c)
      with False Cons.prems(3)
      have a: "set_partition zone rs (remove1 c cur, upd0 @ [r\<lparr>ID := ID c\<rparr>], app0) = (pool, upd, app)"
        by (simp only: set_partition_Cons) simp
      from Some False id f Cons.prems(4)
      have b: "set_partition zone rs' (remove1 c cur, upd0' @ [r'\<lparr>ID := ID c\<rparr>], app0') = (pool', upd', app')"
        by (simp only: set_partition_Cons) simp
      from key have "same_record_key zone (r\<lparr>ID := ID c\<rparr>) (r'\<lparr>ID := ID c\<rparr>)"
        by (simp add: same_record_key_def same_key_def)
      with Cons.prems(1)
      have "list_all2 (same_record_key zone) (upd0 @ [r\<lparr>ID := ID c\<rparr>]) (upd0' @ [r'\<lparr>ID := ID c\<rparr>])"
        by (simp add: list_all2_appendI)
      from Cons.IH [OF this Cons.prems(2) a b] show ?thesis .
    qed
  qed
qed

section \<open>Evaluation on the examples\<close>

lemma rrttl_plain: "rrttl plain_record = ''&rrttl=5''"
  by (simp add: rrttl_def plain_record_def Second_def show_int_def show_nat.simps digit_def signed_divide_int_def)

lemma rrttl_rrdistance_empty: "rrttl injecting_record = '''' \<and> rrdistance injecting_record = '''' \<and> rrdistance plain_record = ''''"
  by (simp add: rrttl_def rrdistance_def plain_record_def injecting_record_def)

lemma getHostname_acme: "getHostname ''example.com'' ''_acme.example.com'' = ''_acme''"
  by (simp add: getHostname_def TrimSuffix_def HasSuffix_def)

lemma getHostname_www: "getHostname ''example.com'' ''www.example.com'' = ''www''"
  by (simp add: getHostname_def TrimSuffix_def HasSuffix_def)

lemma GetRecords_accepting:
  "GetRecords (accepting rrs) p log zone = (Ok (map to_Record rrs), log @ [list_url p zone])"
  by (simp add: GetRecords_def accepting_def)

lemma acknowledged_accepting: "acknowledged (accepting rrs) log u"
  by (simp add: acknowledged_def accepting_def)

lemma all_acknowledged_accepting: "all_acknowledged (accepting rrs) log us"
  by (induction us arbitrary: log) (simp_all add: acknowledged_accepting)

lemma set_partition_other_record: "set_partition ''example.com'' [acme_txt] ([to_Record www_rr], [], []) =
     ([to_Record www_rr], [], [acme_txt])"
  by (simp add: to_Record_def www_rr_def acme_txt_def getHostname_acme getHostname_www)

lemma set_partition_empty_pool: "set_partition ''example.com'' [acme_txt] ([], [], []) = ([], [], [])"
  by (simp add: acme_txt_def)

lemma set_partition_single_match: "set_partition ''example.com'' [acme_txt, acme_txt] ([to_Record acme_rr], [], []) =
     ([], [acme_txt\<lparr>ID := ''2''\<rparr>], [])"
  by (simp add: to_Record_def acme_rr_def acme_txt_def getHostname_acme)

section \<open>Consequences for the claims\<close>

lemma distinct_mset_subset:
  assumes "mset xs \<subseteq># mset ys" and "distinct ys"
  shows "distinct xs"
proof -
  obtain zs where "mset zs = mset ys - mset xs" using ex_mset by blast
  with assms(1) have "mset (xs @ zs) = mset ys" by simp
  then have "distinct (xs @ zs) \<longleftrightarrow> distinct ys" by (rule mset_eq_imp_distinct_iff)
  with assms(2) show ?thesis by simp
qed

lemma set_partition_distinct:
  assumes "set_partition zone records (cur, [], []) = (pool, upd, app)"
    and "distinct (map ID cur)" and "list_all (\<lambda>r. ID r = '''') records"
  shows "distinct (map ID upd)"
proof -
  from assms(3) have "filter (\<lambda>r. ID r \<noteq> '''') records = []"
    by (simp add: list_all_iff filter_empty_conv)
  with set_partition_mset [OF assms(1)]
  have "mset (map ID upd) = image_mset ID (mset cur - mset pool)" by simp
  moreover have "image_mset ID (mset cur - mset pool) \<subseteq># image_mset ID (mset cur)"
    by (simp add: image_mset_subseteq_mono)
  ultimately have "mset (map ID upd) \<subseteq># mset (map ID cur)" by simp
  from distinct_mset_subset [OF this assms(2)] show ?thesis .
qed

lemma delete_match_distinct:
  assumes "delete_match zone records (cur, []) = (pool, dels)" and "distinct cur"
  shows "distinct dels"
proof -
  from delete_match_mset [OF assms(1)] have "mset dels \<subseteq># mset cur"
    by (metis mset_subset_eq_add_left)
  from distinct_mset_subset [OF this assms(2)] show ?thesis .
qed

lemma delete_match_single:
  "delete_match zone [record] ([currentRecord], []) =
     (if same_key zone record currentRecord then ([], [currentRecord]) else ([currentRecord], []))"
  by (simp add: same_key_def)

lemma set_partition_single:
  "ID record = '''' \<Longrightarrow> set_partition zone [record] ([currentRecord], [], []) =
     (if same_key zone record currentRecord then ([], [record\<lparr>ID := ID currentRecord\<rparr>], [])
      else ([currentRecord], [], [record]))"
  by (simp add: same_key_def)

lemma DeleteRecords_eq:
  assumes "GetRecords e p log zone = (Ok currentRecords, log1)"
  shows "DeleteRecords e p log zone records =
    ack_loop e (delete_url p zone) (first_match_queue zone currentRecords records) [] log1"
  using assms by (simp add: DeleteRecords_def delete_match_eq delete_loop_ack_loop)

lemma first_match_queue_subset:
  "mset (first_match_queue zone cur rs) \<subseteq># mset cur"
  using first_match_queue_mset [of zone cur rs] by (metis mset_subset_eq_add_left)

lemma delete_scan_no_match:
  "find (same_key zone r) pool = None \<Longrightarrow> delete_scan zone r 0 pool (pool, dels) = (pool, dels)"
  by (simp add: delete_scan_0)

lemma set_partition_duplicates:
  assumes "ID r = ''''" and "find (same_key zone r) cur = Some c1"
    and "find (same_key zone r) (remove1 c1 cur) = Some c2"
  shows "set_partition zone [r, r] (cur, [], []) =
           (remove1 c2 (remove1 c1 cur), [r\<lparr>ID := ID c1\<rparr>, r\<lparr>ID := ID c2\<rparr>], [])"
  using assms by (simp add: set_partition_Cons del: set_partition.simps(2))

lemma delete_match_duplicates:
  assumes "find (same_key zone r) cur = Some c1"
    and "find (same_key zone r) (remove1 c1 cur) = Some c2"
  shows "delete_match zone [r, r] (cur, []) = (remove1 c2 (remove1 c1 cur), [c1, c2])"
  using assms by (simp add: delete_match_eq del: delete_match.simps)

text \<open>
  A desired record without an ID and without a match is queued for creation when the
  pool is not empty, and is queued nowhere when the pool is empty.
\<close>

lemma set_partition_no_match:
  assumes "ID r = ''''" and "find (same_key zone r) cur = None"
  shows "set_partition zone (r # rs) (cur, upd, app) =
           set_partition zone rs (cur, upd, if cur = [] then app else app @ [r])"
  using assms by (simp add: set_partition_Cons del: set_partition.simps(2))

lemma set_partition_empty_pool_skips:
  "ID r = '''' \<Longrightarrow>
     set_partition zone (r # rs) ([], upd, app) = set_partition zone rs ([], upd, app)"
  by (simp add: set_partition_Cons del: set_partition.simps(2))

text \<open>What \<^verbatim>\<open>SetRecords\<close> returns on success is its update queue, and no more.\<close>

lemma SetRecords_Ok_update_queue:
  assumes "GetRecords e p log zone = (Ok cur, log1)"
    and "set_partition zone records (cur, [], []) = (pool, upd, app)"
    and "SetRecords e p log zone records = (Ok out, log')"
  shows "out = upd"
proof -
  obtain r2 log2 where a: "AppendRecords e p log1 zone app = (r2, log2)" by force
  show ?thesis
  proof (cases r2)
    case (Ok appended)
    with assms a
    have "ack_loop e (update_url p zone) upd (go_copy [] appended) log2 = (Ok out, log')"
      by (simp add: SetRecords_def update_loop_ack_loop)
    from ack_loop_Ok [OF this] show ?thesis by (simp add: go_copy_def)
  next
    case (Err err)
    with assms a show ?thesis by (simp add: SetRecords_def)
  next
    case Fatal
    with assms a show ?thesis by (simp add: SetRecords_def)
  qed
qed

lemma GetRecords_rejecting:
  "GetRecords (rejecting rrs) p log zone = (Ok (map to_Record rrs), log @ [list_url p zone])"
  by (simp add: GetRecords_def rejecting_def)

lemma ack_request_rejecting:
  "ack_request (rejecting rrs) log u = (Some (RegistrarError 280 ''refused''), log @ [u])"
  by (simp add: ack_request_def rejecting_def)

lemma rejected_rejecting: "rejected (rejecting rrs) log u 280 ''refused''"
  by (simp add: rejected_def rejecting_def)

lemma getHostname_test:
  "getHostname ''matjes.life'' ''_test.matjes.life'' = ''_test''"
  "getHostname ''matjes.life'' ''_test'' = ''_test''"
  by (simp_all add: getHostname_def TrimSuffix_def HasSuffix_def)

lemma getHostname_missing:
  "getHostname ''example.com'' ''missing.example.com'' = ''missing''"
  by (simp add: getHostname_def TrimSuffix_def HasSuffix_def)

text \<open>
  What \<open>TrimSuffix\<close> and \<open>getHostname\<close> compute, case by case.
\<close>

lemma HasSuffix_iff: "HasSuffix s suf \<longleftrightarrow> (\<exists>p. s = p @ suf)"
proof
  assume "HasSuffix s suf"
  then have "s = take (length s - length suf) s @ suf"
    by (metis HasSuffix_def append_take_drop_id)
  then show "\<exists>p. s = p @ suf" by blast
next
  assume "\<exists>p. s = p @ suf"
  then show "HasSuffix s suf" by (auto simp: HasSuffix_def)
qed

lemma TrimSuffix_append: "TrimSuffix (p @ suf) suf = p"
  by (simp add: TrimSuffix_def HasSuffix_def)

lemma TrimSuffix_no_suffix: "\<forall>p. s \<noteq> p @ suf \<Longrightarrow> TrimSuffix s suf = s"
  by (simp add: TrimSuffix_def HasSuffix_iff)

lemma TrimSuffix_dot:
  "TrimSuffix s ''.'' = (if s \<noteq> [] \<and> last s = CHR ''.'' then butlast s else s)"
proof (cases "s \<noteq> [] \<and> last s = CHR ''.''")
  case True
  then have "s = butlast s @ ''.''" by (metis append_butlast_last_id)
  then have "TrimSuffix s ''.'' = butlast s" by (metis TrimSuffix_append)
  with True show ?thesis by simp
next
  case False
  have "\<forall>p. s \<noteq> p @ ''.''"
  proof (intro allI notI)
    fix p assume "s = p @ ''.''"
    then have "s \<noteq> [] \<and> last s = CHR ''.''" by simp
    with False show False by blast
  qed
  then have "TrimSuffix s ''.'' = s" by (rule TrimSuffix_no_suffix)
  with False show ?thesis by auto
qed

lemma getHostname_full_name: "getHostname zone (h @ ''.'' @ zone) = h"
proof -
  have "TrimSuffix (h @ ''.'' @ zone) zone = h @ ''.''"
    using TrimSuffix_append [of "h @ ''.''" zone] by simp
  then show ?thesis by (simp add: getHostname_def TrimSuffix_append)
qed

lemma getHostname_zone_suffix:
  "getHostname zone (p @ zone) = (if p \<noteq> [] \<and> last p = CHR ''.'' then butlast p else p)"
  by (simp only: getHostname_def TrimSuffix_append TrimSuffix_dot)

lemma getHostname_no_zone_suffix:
  "\<forall>p. name \<noteq> p @ zone \<Longrightarrow>
     getHostname zone name =
       (if name \<noteq> [] \<and> last name = CHR ''.'' then butlast name else name)"
proof -
  assume "\<forall>p. name \<noteq> p @ zone"
  then have "TrimSuffix name zone = name" by (rule TrimSuffix_no_suffix)
  then show ?thesis by (simp only: getHostname_def TrimSuffix_dot)
qed

lemma getHostname_relative_name:
  assumes "\<forall>p. h \<noteq> p @ zone" and "h = [] \<or> last h \<noteq> CHR ''.''"
  shows "getHostname zone h = h"
  using assms getHostname_no_zone_suffix [OF assms(1)] by auto

lemma test_no_zone_suffix: "\<forall>p. ''_test'' \<noteq> p @ ''matjes.life''"
proof (intro allI notI)
  fix p :: string
  assume "''_test'' = p @ ''matjes.life''"
  then have "length ''_test'' = length (p @ ''matjes.life'')" by (rule arg_cong)
  then show False by simp
qed

section \<open>The claims\<close>

subsection \<open>C1\<close>

text \<open>
  Claim C1: when all registrar calls succeed, \<^verbatim>\<open>Set\<close> returns the created records
  followed by the updated records, so every record that was classified as a create and
  was created appears in the returned sequence.

  The code does not do this. Line 199 copies the created records into \<^verbatim>\<open>updatedRecords\<close>
  while that slice is still empty, and \<^verbatim>\<open>copy\<close> never grows its destination: nothing is
  copied. At the zone \<^verbatim>\<open>example.com\<close>, with a registrar that holds one \<^verbatim>\<open>A\<close> record
  and accepts everything, the desired \<^verbatim>\<open>TXT\<close> record is classified as a create, the
  create request is issued and \<^verbatim>\<open>AppendRecords\<close> returns the record, but \<^verbatim>\<open>SetRecords\<close>
  returns the empty sequence.
\<close>

theorem SetRecords_omits_created_records:
  "SetRecords (accepting [www_rr]) example_provider [] ''example.com'' [acme_txt] =
     (Ok [], [list_url example_provider ''example.com'',
              add_url example_provider ''example.com'' acme_txt]) \<and>
   set_partition ''example.com'' [acme_txt] ([to_Record www_rr], [], []) =
     ([to_Record www_rr], [], [acme_txt]) \<and>
   AppendRecords (accepting [www_rr]) example_provider
       [list_url example_provider ''example.com''] ''example.com'' [acme_txt] =
     (Ok [acme_txt], [list_url example_provider ''example.com'',
                      add_url example_provider ''example.com'' acme_txt])"
  by (simp add: SetRecords_def GetRecords_accepting set_partition_other_record
      AppendRecords_def ack_request_acknowledged acknowledged_accepting go_copy_def
      del: set_partition.simps)

subsection \<open>C2\<close>

text \<open>
  Claim C2: a desired record without an ID that matches no remaining current record,
  also when no current record remains at all, is classified as a create and handed to the
  create phase; and of two desired records with the same type and name and no ID, when
  one current record matches, the first claims it and the second becomes a create.

  The code queues a record for creation inside the loop over the current records, at
  the last index (line 184). When the pool is empty the loop body never runs: the
  record is neither created nor updated. With no current record, the desired record
  lands in no queue and \<^verbatim>\<open>SetRecords\<close> issues no request but the listing. With one
  matching current record and the desired record given twice, the first claims the
  match, the pool is empty, and the second is dropped as well.
\<close>

theorem set_partition_empty_pool_drops_record:
  "set_partition ''example.com'' [acme_txt] ([], [], []) = ([], [], []) \<and>
   SetRecords (accepting []) example_provider [] ''example.com'' [acme_txt] =
     (Ok [], [list_url example_provider ''example.com'']) \<and>
   set_partition ''example.com'' [acme_txt, acme_txt] ([to_Record acme_rr], [], []) =
     ([], [acme_txt\<lparr>ID := ''2''\<rparr>], [])"
  by (simp add: SetRecords_def GetRecords_accepting set_partition_empty_pool
      set_partition_single_match AppendRecords_def go_copy_def
      del: set_partition.simps)

subsection \<open>C3\<close>

text \<open>
  Claim C3: when the body of the list response cannot be decoded, \<^verbatim>\<open>List\<close> returns a
  decoding error to its caller and never ends the process.

  The code calls \<^verbatim>\<open>log.Fatalf\<close> at line 77, which ends the process, where the three
  other operations return an error for the same failure (lines 147, 245 and 314). At
  a registrar whose answers do not decode, \<^verbatim>\<open>GetRecords\<close> ends the process after its
  request, and \<^verbatim>\<open>AppendRecords\<close> returns the decoding error.
\<close>

theorem GetRecords_decode_failure_exits:
  "GetRecords undecodable example_provider [] ''example.com'' =
     (Fatal, [list_url example_provider ''example.com'']) \<and>
   fst (AppendRecords undecodable example_provider [] ''example.com'' [acme_txt]) =
     Err DecodeError"
  by (simp add: GetRecords_def AppendRecords_def ack_request_def undecodable_def)

subsection \<open>C4\<close>

text \<open>
  Claim C4: in \<^verbatim>\<open>Append\<close>, \<^verbatim>\<open>Set\<close> and \<^verbatim>\<open>Delete\<close>, an acknowledgement that decodes
  and whose code is not 300 makes the operation fail with a registrar error, also when
  the HTTP status is 200.

  Let \<open>log'\<close> be the requests after the operation and \<open>i\<close> the position of one of the
  requests that the operation issued to create, update or delete (in \<^verbatim>\<open>Set\<close> and
  \<^verbatim>\<open>Delete\<close> the first request, the listing, is not one of them). When the answer to
  that request is rejected, the operation returns the registrar error with the code and
  the detail of that answer.
\<close>

theorem nonsuccess_code_fails_operation:
  assumes "i < length log'" and "rejected e (take i log') (log' ! i) code detail"
  shows "(AppendRecords e p log zone records = (res, log') \<and> length log \<le> i \<longrightarrow>
            res = Err (RegistrarError code detail)) \<and>
         (SetRecords e p log zone records = (res, log') \<and> length log < i \<longrightarrow>
            res = Err (RegistrarError code detail)) \<and>
         (DeleteRecords e p log zone records = (res, log') \<and> length log < i \<longrightarrow>
            res = Err (RegistrarError code detail))"
proof (intro conjI impI)
  assume "AppendRecords e p log zone records = (res, log') \<and> length log \<le> i"
  with assms show "res = Err (RegistrarError code detail)"
    using AppendRecords_rejected by blast
next
  assume "SetRecords e p log zone records = (res, log') \<and> length log < i"
  with assms show "res = Err (RegistrarError code detail)"
    using SetRecords_rejected by blast
next
  assume "DeleteRecords e p log zone records = (res, log') \<and> length log < i"
  with assms show "res = Err (RegistrarError code detail)"
    using DeleteRecords_rejected by blast
qed

text \<open>
  At a registrar that answers HTTP 200 with code 280: the create request of
  \<^verbatim>\<open>Append\<close>, the update request of \<^verbatim>\<open>Set\<close> and the delete request of \<^verbatim>\<open>Delete\<close>
  are rejected, and each operation fails with that code.
\<close>

theorem nonsuccess_code_fails_operation_witness:
  "fst (AppendRecords (rejecting []) example_provider [] ''example.com'' [acme_txt]) =
     Err (RegistrarError 280 ''refused'') \<and>
   fst (SetRecords (rejecting [acme_rr]) example_provider [] ''example.com'' [acme_txt]) =
     Err (RegistrarError 280 ''refused'') \<and>
   fst (DeleteRecords (rejecting [acme_rr]) example_provider [] ''example.com'' [acme_txt]) =
     Err (RegistrarError 280 ''refused'')"
proof -
  let ?p = example_provider and ?z = "''example.com''"
  let ?a = "AppendRecords (rejecting []) ?p [] ?z [acme_txt]"
  let ?s = "SetRecords (rejecting [acme_rr]) ?p [] ?z [acme_txt]"
  let ?d = "DeleteRecords (rejecting [acme_rr]) ?p [] ?z [acme_txt]"
  have la: "snd ?a = [add_url ?p ?z acme_txt]"
    by (simp add: AppendRecords_def ack_request_rejecting)
  have ls: "snd ?s = [list_url ?p ?z, update_url ?p ?z (acme_txt\<lparr>ID := ''2''\<rparr>)]"
    by (simp add: SetRecords_def GetRecords_rejecting AppendRecords_def go_copy_def
        ack_request_rejecting to_Record_def acme_rr_def acme_txt_def getHostname_acme)
  have ld: "snd ?d = [list_url ?p ?z, delete_url ?p ?z (to_Record acme_rr)]"
    by (simp add: DeleteRecords_def GetRecords_rejecting ack_request_rejecting
        to_Record_def acme_rr_def acme_txt_def getHostname_acme)
  from la have pa: "?a = (fst ?a, [add_url ?p ?z acme_txt])"
    by (simp add: prod_eq_iff)
  from ls have ps: "?s = (fst ?s, [list_url ?p ?z, update_url ?p ?z (acme_txt\<lparr>ID := ''2''\<rparr>)])"
    by (simp add: prod_eq_iff)
  from ld have pd: "?d = (fst ?d, [list_url ?p ?z, delete_url ?p ?z (to_Record acme_rr)])"
    by (simp add: prod_eq_iff)
  have a: "fst ?a = Err (RegistrarError 280 ''refused'')"
    using nonsuccess_code_fails_operation
      [where i = 0 and log' = "[add_url ?p ?z acme_txt]" and e = "rejecting []"
         and code = 280 and detail = "''refused''" and p = ?p and log = "[]" and zone = ?z
         and records = "[acme_txt]" and res = "fst ?a"] pa
    by (simp add: rejected_rejecting)
  have s: "fst ?s = Err (RegistrarError 280 ''refused'')"
    using nonsuccess_code_fails_operation
      [where i = 1
         and log' = "[list_url ?p ?z, update_url ?p ?z (acme_txt\<lparr>ID := ''2''\<rparr>)]"
         and e = "rejecting [acme_rr]" and code = 280 and detail = "''refused''"
         and p = ?p and log = "[]" and zone = ?z
         and records = "[acme_txt]" and res = "fst ?s"] ps
    by (simp add: rejected_rejecting)
  have d: "fst ?d = Err (RegistrarError 280 ''refused'')"
    using nonsuccess_code_fails_operation
      [where i = 1
         and log' = "[list_url ?p ?z, delete_url ?p ?z (to_Record acme_rr)]"
         and e = "rejecting [acme_rr]" and code = 280 and detail = "''refused''"
         and p = ?p and log = "[]" and zone = ?z
         and records = "[acme_txt]" and res = "fst ?d"] pd
    by (simp add: rejected_rejecting)
  from a s d show ?thesis by simp
qed

subsection \<open>C5\<close>

text \<open>
  Claim C5: \<^verbatim>\<open>Append\<close> issues one create request per record, in input order; at the
  first request that fails it stops and returns that error, undoing nothing; a record
  whose request succeeded is appended unchanged, so that a fully successful \<^verbatim>\<open>Append\<close>
  returns its input.

  Whatever the registrar does, the requests of \<^verbatim>\<open>AppendRecords\<close> are the create
  requests of the first \<open>k\<close> records, in order, and nothing else. When every request is
  acknowledged the result is the input list; a returned list is the input list and
  every request was acknowledged; a returned error is the error of the request for
  record \<open>k\<close>, the requests of all records before it were acknowledged, and no
  request follows it. The process never ends inside \<^verbatim>\<open>AppendRecords\<close>.
\<close>

theorem AppendRecords_in_order:
  assumes "AppendRecords e p log zone records = (res, log')"
  shows "(\<exists>k \<le> length records. log' = log @ map (add_url p zone) (take k records)) \<and>
         (all_acknowledged e log (map (add_url p zone) records) \<longrightarrow>
            res = Ok records \<and> log' = log @ map (add_url p zone) records) \<and>
         (\<forall>out. res = Ok out \<longrightarrow>
            out = records \<and> log' = log @ map (add_url p zone) records \<and>
            all_acknowledged e log (map (add_url p zone) records)) \<and>
         (\<forall>err. res = Err err \<longrightarrow>
            (\<exists>k < length records.
               all_acknowledged e log (map (add_url p zone) (take k records)) \<and>
               ack_request e (log @ map (add_url p zone) (take k records))
                 (add_url p zone (records ! k)) = (Some err, log'))) \<and>
         res \<noteq> Fatal"
proof -
  from assms have a: "ack_loop e (add_url p zone) records [] log = (res, log')"
    by (simp add: AppendRecords_def append_loop_ack_loop)
  have 1: "\<exists>k \<le> length records. log' = log @ map (add_url p zone) (take k records)"
    using ack_loop_log [OF a] .
  have 2: "all_acknowledged e log (map (add_url p zone) records) \<longrightarrow>
            res = Ok records \<and> log' = log @ map (add_url p zone) records"
    using a ack_loop_all_acknowledged [of e log "add_url p zone" records "[]"] by simp
  have 3: "\<forall>out. res = Ok out \<longrightarrow>
            out = records \<and> log' = log @ map (add_url p zone) records \<and>
            all_acknowledged e log (map (add_url p zone) records)"
  proof (intro allI impI)
    fix out
    assume "res = Ok out"
    with a have "ack_loop e (add_url p zone) records [] log = (Ok out, log')" by simp
    from ack_loop_Ok [OF this]
    show "out = records \<and> log' = log @ map (add_url p zone) records \<and>
            all_acknowledged e log (map (add_url p zone) records)" by simp
  qed
  have 4: "\<forall>err. res = Err err \<longrightarrow>
            (\<exists>k < length records.
               all_acknowledged e log (map (add_url p zone) (take k records)) \<and>
               ack_request e (log @ map (add_url p zone) (take k records))
                 (add_url p zone (records ! k)) = (Some err, log'))"
  proof (intro allI impI)
    fix err
    assume "res = Err err"
    with a have "ack_loop e (add_url p zone) records [] log = (Err err, log')" by simp
    from ack_loop_Err [OF this]
    show "\<exists>k < length records.
               all_acknowledged e log (map (add_url p zone) (take k records)) \<and>
               ack_request e (log @ map (add_url p zone) (take k records))
                 (add_url p zone (records ! k)) = (Some err, log')" .
  qed
  have 5: "res \<noteq> Fatal"
    using a ack_loop_not_Fatal [of e "add_url p zone" records "[]" log] by simp
  from 1 2 3 4 5 show ?thesis by blast
qed

text \<open>
  At a registrar that accepts everything, \<^verbatim>\<open>AppendRecords\<close> on two records returns
  the two records and has issued their two create requests, in order. At a registrar
  that refuses everything it returns the error of the first request and issues no
  second one.
\<close>

theorem AppendRecords_in_order_witness:
  "AppendRecords (accepting []) example_provider [] ''example.com'' [acme_txt, www_request] =
     (Ok [acme_txt, www_request],
      [add_url example_provider ''example.com'' acme_txt,
       add_url example_provider ''example.com'' www_request]) \<and>
   AppendRecords (rejecting []) example_provider [] ''example.com'' [acme_txt, www_request] =
     (Err (RegistrarError 280 ''refused''),
      [add_url example_provider ''example.com'' acme_txt])"
proof -
  let ?r = "AppendRecords (accepting []) example_provider [] ''example.com''
              [acme_txt, www_request]"
  have f: "AppendRecords (rejecting []) example_provider [] ''example.com''
             [acme_txt, www_request] =
     (Err (RegistrarError 280 ''refused''),
      [add_url example_provider ''example.com'' acme_txt])"
    by (simp add: AppendRecords_def ack_request_rejecting)
  have h: "all_acknowledged (accepting []) []
             (map (add_url example_provider ''example.com'') [acme_txt, www_request])"
    by (rule all_acknowledged_accepting)
  have "?r = (fst ?r, snd ?r)" by simp
  from AppendRecords_in_order [OF this] h
  have "fst ?r = Ok [acme_txt, www_request] \<and>
        snd ?r = [] @ map (add_url example_provider ''example.com'') [acme_txt, www_request]"
    by blast
  with f show ?thesis by (simp add: prod_eq_iff)
qed

subsection \<open>C6\<close>

text \<open>
  Claim C6: in \<^verbatim>\<open>Delete\<close>, a requested record that matches no remaining current
  record is skipped without an error; one delete request is issued per matched record,
  in the order of the matches; the returned sequence holds the matched current records,
  which carry the registrar's ID, not the records of the caller.

  Let the listing succeed with \<open>currentRecords\<close> and let every delete request be
  acknowledged. Then \<^verbatim>\<open>DeleteRecords\<close> returns the queue of first matches and has issued,
  after the listing, the delete requests of exactly that queue, in order. The matching
  loop of the source computes that queue; the queue is taken from the current records;
  and a requested record without a match in the pool leaves the pool and the queue as
  they are.
\<close>

theorem DeleteRecords_returns_matched_current_records:
  assumes "GetRecords e p log zone = (Ok currentRecords, log1)"
    and "all_acknowledged e log1
           (map (delete_url p zone) (first_match_queue zone currentRecords records))"
  shows "DeleteRecords e p log zone records =
           (Ok (first_match_queue zone currentRecords records),
            log1 @ map (delete_url p zone) (first_match_queue zone currentRecords records)) \<and>
         snd (delete_match zone records (currentRecords, [])) =
           first_match_queue zone currentRecords records \<and>
         mset (first_match_queue zone currentRecords records) \<subseteq># mset currentRecords \<and>
         (find (same_key zone r) pool = None \<longrightarrow>
            delete_scan zone r 0 pool (pool, dels) = (pool, dels))"
proof -
  let ?q = "first_match_queue zone currentRecords records"
  have "DeleteRecords e p log zone records = ack_loop e (delete_url p zone) ?q [] log1"
    using assms(1) by (rule DeleteRecords_eq)
  with ack_loop_all_acknowledged [OF assms(2), of "[]"]
  have 1: "DeleteRecords e p log zone records = (Ok ?q, log1 @ map (delete_url p zone) ?q)"
    by simp
  have 2: "snd (delete_match zone records (currentRecords, [])) = ?q"
    by (simp add: delete_match_eq)
  have 3: "mset ?q \<subseteq># mset currentRecords"
    by (rule first_match_queue_subset)
  have 4: "find (same_key zone r) pool = None \<longrightarrow>
            delete_scan zone r 0 pool (pool, dels) = (pool, dels)"
    by (simp add: delete_scan_no_match)
  from 1 2 3 4 show ?thesis by blast
qed

text \<open>
  The registrar holds the \<^verbatim>\<open>A\<close> record of \<^verbatim>\<open>www.example.com\<close> with ID 1 and accepts
  everything; \<^verbatim>\<open>Delete\<close> is asked for \<^verbatim>\<open>missing.example.com\<close> and
  \<^verbatim>\<open>www.example.com\<close>. The first request matches nothing and changes nothing; one
  delete request is issued and the registrar's record is returned.
\<close>

theorem DeleteRecords_returns_matched_current_records_witness:
  "DeleteRecords (accepting [www_rr]) example_provider [] ''example.com''
     [missing_request, www_request] =
     (Ok [to_Record www_rr],
      [list_url example_provider ''example.com'',
       delete_url example_provider ''example.com'' (to_Record www_rr)]) \<and>
   ID (to_Record www_rr) = ''1'' \<and>
   find (same_key ''example.com'' missing_request) [to_Record www_rr] = None \<and>
   delete_scan ''example.com'' missing_request 0 [to_Record www_rr] ([to_Record www_rr], []) =
     ([to_Record www_rr], [])"
proof -
  let ?e = "accepting [www_rr]" and ?p = example_provider and ?z = "''example.com''"
  have g: "GetRecords ?e ?p [] ?z = (Ok [to_Record www_rr], [list_url ?p ?z])"
    by (simp add: GetRecords_accepting)
  have q: "first_match_queue ?z [to_Record www_rr] [missing_request, www_request] =
             [to_Record www_rr]"
    by (simp add: same_key_def to_Record_def www_rr_def missing_request_def
        www_request_def getHostname_www getHostname_missing)
  have h: "all_acknowledged ?e [list_url ?p ?z]
             (map (delete_url ?p ?z)
                (first_match_queue ?z [to_Record www_rr] [missing_request, www_request]))"
    by (rule all_acknowledged_accepting)
  have m: "find (same_key ?z missing_request) [to_Record www_rr] = None"
    by (simp add: same_key_def to_Record_def www_rr_def missing_request_def
        getHostname_www getHostname_missing)
  from DeleteRecords_returns_matched_current_records
    [OF g h, where r = missing_request and pool = "[to_Record www_rr]" and dels = "[]"] q m
  have "DeleteRecords ?e ?p [] ?z [missing_request, www_request] =
          (Ok [to_Record www_rr], [list_url ?p ?z] @ map (delete_url ?p ?z) [to_Record www_rr]) \<and>
        delete_scan ?z missing_request 0 [to_Record www_rr] ([to_Record www_rr], []) =
          ([to_Record www_rr], [])"
    by simp
  with m show ?thesis by (simp add: to_Record_def www_rr_def)
qed

subsection \<open>C7\<close>

text \<open>
  Claim C7: in the matching phase of \<^verbatim>\<open>Set\<close> and of \<^verbatim>\<open>Delete\<close> a current record
  is consumed at most once: after a match it is out of the pool and no later record of
  the call matches it, so records of the call that are bound by matching are bound to
  different current records, also when they have the same type and name.

  With the records as multisets, so that equal records count as often as they occur:
  in \<^verbatim>\<open>Set\<close> the final pool is part of the current records, and the IDs on the update
  queue are the IDs that the caller gave together with the IDs of the current records
  that left the pool, each once per record that left; when no desired record has an
  ID and the current IDs differ from one another, the IDs on the update queue differ
  from one another. In \<^verbatim>\<open>Delete\<close> the queue and the final pool together are the
  current records, and distinct current records give a queue of distinct records.
  When the pool holds a first match \<open>c1\<close> for a record and, once \<open>c1\<close> is removed,
  a first match \<open>c2\<close>, the record given twice is bound to \<open>c1\<close> and then to
  \<open>c2\<close>, and both leave the pool.
  Desired records that carry an ID are not matched and are outside this statement.
\<close>

theorem current_record_consumed_at_most_once:
  "(set_partition zone records (currentRecords, [], []) = (pool, updateRecords, appendRecords)
      \<longrightarrow>
      mset pool \<subseteq># mset currentRecords \<and>
      image_mset ID (mset updateRecords) =
        image_mset ID (mset (filter (\<lambda>r. ID r \<noteq> '''') records)) +
        image_mset ID (mset currentRecords - mset pool) \<and>
      (distinct (map ID currentRecords) \<and> list_all (\<lambda>r. ID r = '''') records \<longrightarrow>
         distinct (map ID updateRecords))) \<and>
   (delete_match zone records (currentRecords, []) = (pool', deleteRecords) \<longrightarrow>
      mset deleteRecords + mset pool' = mset currentRecords \<and>
      (distinct currentRecords \<longrightarrow> distinct deleteRecords)) \<and>
   (find (same_key zone r) currentRecords = Some c1 \<and>
    find (same_key zone r) (remove1 c1 currentRecords) = Some c2 \<longrightarrow>
      delete_match zone [r, r] (currentRecords, []) =
        (remove1 c2 (remove1 c1 currentRecords), [c1, c2]) \<and>
      (ID r = '''' \<longrightarrow>
         set_partition zone [r, r] (currentRecords, [], []) =
           (remove1 c2 (remove1 c1 currentRecords),
            [r\<lparr>ID := ID c1\<rparr>, r\<lparr>ID := ID c2\<rparr>], [])))"
proof (intro conjI impI)
  assume a: "set_partition zone records (currentRecords, [], []) =
               (pool, updateRecords, appendRecords)"
  from set_partition_mset [OF a] show "mset pool \<subseteq># mset currentRecords" by simp
  from set_partition_mset [OF a]
  show "image_mset ID (mset updateRecords) =
          image_mset ID (mset (filter (\<lambda>r. ID r \<noteq> '''') records)) +
          image_mset ID (mset currentRecords - mset pool)" by simp
  assume "distinct (map ID currentRecords) \<and> list_all (\<lambda>r. ID r = '''') records"
  with a show "distinct (map ID updateRecords)"
    using set_partition_distinct by blast
next
  assume a: "delete_match zone records (currentRecords, []) = (pool', deleteRecords)"
  from delete_match_mset [OF a]
  show "mset deleteRecords + mset pool' = mset currentRecords" .
  assume "distinct currentRecords"
  with a show "distinct deleteRecords" using delete_match_distinct by blast
next
  assume f: "find (same_key zone r) currentRecords = Some c1 \<and>
    find (same_key zone r) (remove1 c1 currentRecords) = Some c2"
  then show "delete_match zone [r, r] (currentRecords, []) =
        (remove1 c2 (remove1 c1 currentRecords), [c1, c2])"
    using delete_match_duplicates by blast
  assume "ID r = ''''"
  with f show "set_partition zone [r, r] (currentRecords, [], []) =
           (remove1 c2 (remove1 c1 currentRecords),
            [r\<lparr>ID := ID c1\<rparr>, r\<lparr>ID := ID c2\<rparr>], [])"
    using set_partition_duplicates by blast
qed

text \<open>
  Two current \<^verbatim>\<open>TXT\<close> records of \<^verbatim>\<open>_acme.example.com\<close>, with IDs 2 and 3, and the
  same desired record twice: \<^verbatim>\<open>Set\<close> binds the first to ID 2 and the second to ID 3,
  and \<^verbatim>\<open>Delete\<close> queues both current records.
\<close>

theorem current_record_consumed_at_most_once_witness:
  "set_partition ''example.com'' [acme_txt, acme_txt]
     ([to_Record acme_rr, to_Record acme_rr'], [], []) =
     ([], [acme_txt\<lparr>ID := ''2''\<rparr>, acme_txt\<lparr>ID := ''3''\<rparr>], []) \<and>
   distinct (map ID [acme_txt\<lparr>ID := ''2''\<rparr>, acme_txt\<lparr>ID := ''3''\<rparr>]) \<and>
   delete_match ''example.com'' [acme_txt, acme_txt]
     ([to_Record acme_rr, to_Record acme_rr'], []) =
     ([], [to_Record acme_rr, to_Record acme_rr']) \<and>
   distinct [to_Record acme_rr, to_Record acme_rr']"
proof -
  let ?cur = "[to_Record acme_rr, to_Record acme_rr']"
  let ?upd = "[acme_txt\<lparr>ID := ''2''\<rparr>, acme_txt\<lparr>ID := ''3''\<rparr>]"
  have s: "set_partition ''example.com'' [acme_txt, acme_txt] (?cur, [], []) = ([], ?upd, [])"
    by (simp add: to_Record_def acme_rr_def acme_rr'_def acme_txt_def getHostname_acme)
  have d: "delete_match ''example.com'' [acme_txt, acme_txt] (?cur, []) = ([], ?cur)"
    by (simp add: to_Record_def acme_rr_def acme_rr'_def acme_txt_def getHostname_acme)
  have i: "distinct (map ID ?cur) \<and> list_all (\<lambda>r. ID r = '''') [acme_txt, acme_txt]"
    by (simp add: to_Record_def acme_rr_def acme_rr'_def acme_txt_def)
  have c: "distinct ?cur"
    by (simp add: to_Record_def acme_rr_def acme_rr'_def)
  have f: "find (same_key ''example.com'' acme_txt) ?cur = Some (to_Record acme_rr) \<and>
     find (same_key ''example.com'' acme_txt) (remove1 (to_Record acme_rr) ?cur) =
       Some (to_Record acme_rr')"
    by (simp add: same_key_def to_Record_def acme_rr_def acme_rr'_def acme_txt_def
        getHostname_acme)
  from current_record_consumed_at_most_once
    [where zone = "''example.com''" and records = "[acme_txt, acme_txt]"
       and currentRecords = ?cur and pool = "[]" and updateRecords = ?upd
       and appendRecords = "[]" and pool' = "[]" and deleteRecords = ?cur
       and r = acme_txt and ?c1.0 = "to_Record acme_rr" and ?c2.0 = "to_Record acme_rr'"]
    s d i c f
  have "distinct (map ID ?upd) \<and> distinct ?cur" by blast
  with s d show ?thesis by blast
qed

subsection \<open>C8\<close>

text \<open>
  Claim C8: \<^verbatim>\<open>Set\<close> and \<^verbatim>\<open>Delete\<close> compare names after zone normalization (the
  zone suffix stripped, then a trailing dot), never as they were given; under the zone
  \<^verbatim>\<open>matjes.life\<close> the names \<^verbatim>\<open>_test.matjes.life\<close> and \<^verbatim>\<open>_test\<close> normalize to the
  same host name and compare equal.

  What the normalizer computes: both names of the claim become \<^verbatim>\<open>_test\<close>; a host
  followed by a dot and the zone becomes the host; a name that ends in the zone loses
  the zone and then one trailing dot; a name that does not end in the zone loses one
  trailing dot and is otherwise unchanged. So a current record named by host, dot and
  zone is matched by a record of the same type named by the host alone.
  How the loops use it: requested records that agree position by position in type and
  normalized name give the same pool and the same queue in \<^verbatim>\<open>Delete\<close>; desired
  records that agree besides in ID give the same pool in \<^verbatim>\<open>Set\<close> and update and
  create queues that agree in the same way, so the same IDs are bound. And one record
  against one current record matches exactly when the types are equal and the
  normalized names are equal.
\<close>

theorem names_compared_after_normalization:
  "getHostname ''matjes.life'' ''_test.matjes.life'' = ''_test'' \<and>
   getHostname ''matjes.life'' ''_test'' = ''_test'' \<and>
   getHostname ''matjes.life'' ''_test.matjes.life'' = getHostname ''matjes.life'' ''_test'' \<and>
   getHostname zone (h @ ''.'' @ zone) = h \<and>
   getHostname zone (p @ zone) =
     (if p \<noteq> [] \<and> last p = CHR ''.'' then butlast p else p) \<and>
   ((\<forall>q. name \<noteq> q @ zone) \<longrightarrow>
      getHostname zone name =
        (if name \<noteq> [] \<and> last name = CHR ''.'' then butlast name else name)) \<and>
   (Type currentRecord = Type desired \<and> Name currentRecord = h @ ''.'' @ zone \<and>
    Name desired = h \<and> (\<forall>q. h \<noteq> q @ zone) \<and> (h = [] \<or> last h \<noteq> CHR ''.'') \<longrightarrow>
      delete_match zone [desired] ([currentRecord], []) = ([], [currentRecord]) \<and>
      (ID desired = '''' \<longrightarrow>
         set_partition zone [desired] ([currentRecord], [], []) =
           ([], [desired\<lparr>ID := ID currentRecord\<rparr>], []))) \<and>
   (list_all2 (same_key zone) records records' \<longrightarrow>
      delete_match zone records (currentRecords, []) =
      delete_match zone records' (currentRecords, [])) \<and>
   (list_all2 (same_record_key zone) records records' \<and>
    set_partition zone records (currentRecords, [], []) = (pool, upd, app) \<and>
    set_partition zone records' (currentRecords, [], []) = (pool', upd', app') \<longrightarrow>
      pool = pool' \<and> list_all2 (same_record_key zone) upd upd' \<and>
      list_all2 (same_record_key zone) app app') \<and>
   delete_match zone [desired] ([currentRecord], []) =
     (if Type currentRecord = Type desired \<and>
         getHostname zone (Name currentRecord) = getHostname zone (Name desired)
      then ([], [currentRecord]) else ([currentRecord], [])) \<and>
   (ID desired = '''' \<longrightarrow>
      set_partition zone [desired] ([currentRecord], [], []) =
        (if Type currentRecord = Type desired \<and>
            getHostname zone (Name currentRecord) = getHostname zone (Name desired)
         then ([], [desired\<lparr>ID := ID currentRecord\<rparr>], [])
         else ([currentRecord], [], [desired])))"
proof -
  have v: "getHostname ''matjes.life'' ''_test.matjes.life'' = ''_test'' \<and>
     getHostname ''matjes.life'' ''_test'' = ''_test'' \<and>
     getHostname ''matjes.life'' ''_test.matjes.life'' = getHostname ''matjes.life'' ''_test''"
    by (simp add: getHostname_test)
  have n1: "getHostname zone (h @ ''.'' @ zone) = h"
    by (rule getHostname_full_name)
  have n2: "getHostname zone (p @ zone) =
     (if p \<noteq> [] \<and> last p = CHR ''.'' then butlast p else p)"
    by (rule getHostname_zone_suffix)
  have n3: "(\<forall>q. name \<noteq> q @ zone) \<longrightarrow>
      getHostname zone name =
        (if name \<noteq> [] \<and> last name = CHR ''.'' then butlast name else name)"
    using getHostname_no_zone_suffix by blast
  have d1: "delete_match zone [desired] ([currentRecord], []) =
     (if Type currentRecord = Type desired \<and>
         getHostname zone (Name currentRecord) = getHostname zone (Name desired)
      then ([], [currentRecord]) else ([currentRecord], []))"
    by (simp add: delete_match_single same_key_def del: delete_match.simps)
  have s1: "ID desired = '''' \<longrightarrow>
      set_partition zone [desired] ([currentRecord], [], []) =
        (if Type currentRecord = Type desired \<and>
            getHostname zone (Name currentRecord) = getHostname zone (Name desired)
         then ([], [desired\<lparr>ID := ID currentRecord\<rparr>], [])
         else ([currentRecord], [], [desired]))"
    by (simp add: set_partition_single same_key_def del: set_partition.simps)
  have m: "Type currentRecord = Type desired \<and> Name currentRecord = h @ ''.'' @ zone \<and>
    Name desired = h \<and> (\<forall>q. h \<noteq> q @ zone) \<and> (h = [] \<or> last h \<noteq> CHR ''.'') \<longrightarrow>
      delete_match zone [desired] ([currentRecord], []) = ([], [currentRecord]) \<and>
      (ID desired = '''' \<longrightarrow>
         set_partition zone [desired] ([currentRecord], [], []) =
           ([], [desired\<lparr>ID := ID currentRecord\<rparr>], []))"
  proof (intro impI)
    assume a: "Type currentRecord = Type desired \<and> Name currentRecord = h @ ''.'' @ zone \<and>
      Name desired = h \<and> (\<forall>q. h \<noteq> q @ zone) \<and> (h = [] \<or> last h \<noteq> CHR ''.'')"
    then have "getHostname zone h = h" using getHostname_relative_name by blast
    with a n1 have "Type currentRecord = Type desired \<and>
      getHostname zone (Name currentRecord) = getHostname zone (Name desired)" by simp
    with d1 s1 show "delete_match zone [desired] ([currentRecord], []) = ([], [currentRecord]) \<and>
      (ID desired = '''' \<longrightarrow>
         set_partition zone [desired] ([currentRecord], [], []) =
           ([], [desired\<lparr>ID := ID currentRecord\<rparr>], []))"
      by (simp del: delete_match.simps set_partition.simps)
  qed
  have i1: "list_all2 (same_key zone) records records' \<longrightarrow>
      delete_match zone records (currentRecords, []) =
      delete_match zone records' (currentRecords, [])"
    using delete_match_same_key by blast
  have i2: "list_all2 (same_record_key zone) records records' \<and>
    set_partition zone records (currentRecords, [], []) = (pool, upd, app) \<and>
    set_partition zone records' (currentRecords, [], []) = (pool', upd', app') \<longrightarrow>
      pool = pool' \<and> list_all2 (same_record_key zone) upd upd' \<and>
      list_all2 (same_record_key zone) app app'"
  proof
    assume a: "list_all2 (same_record_key zone) records records' \<and>
      set_partition zone records (currentRecords, [], []) = (pool, upd, app) \<and>
      set_partition zone records' (currentRecords, [], []) = (pool', upd', app')"
    have e: "list_all2 (same_record_key zone) [] []" by simp
    from a set_partition_same_key [OF _ e e]
    show "pool = pool' \<and> list_all2 (same_record_key zone) upd upd' \<and>
           list_all2 (same_record_key zone) app app'" by blast
  qed
  from v n1 n2 n3 m i1 i2 d1 s1 show ?thesis by (intro conjI) (simp_all only:)
qed

text \<open>
  Under the zone \<^verbatim>\<open>matjes.life\<close>, with the registrar's record of
  \<^verbatim>\<open>_test.matjes.life\<close>: the record of \<^verbatim>\<open>test/main.go\<close> matches it under its full
  name and under the name \<^verbatim>\<open>_test\<close> alike, in \<^verbatim>\<open>Delete\<close> and in \<^verbatim>\<open>Set\<close>, where
  both are bound to the ID 9. Both names normalize to \<^verbatim>\<open>_test\<close>. The registrar's
  record of \<^verbatim>\<open>_acme.matjes.life\<close> normalizes to \<^verbatim>\<open>_acme\<close> and is not matched.
\<close>

theorem names_compared_after_normalization_witness:
  "delete_match ''matjes.life'' [test_full] ([to_Record test_rr], []) =
     delete_match ''matjes.life'' [test_relative] ([to_Record test_rr], []) \<and>
   delete_match ''matjes.life'' [test_relative] ([to_Record test_rr], []) =
     ([], [to_Record test_rr]) \<and>
   set_partition ''matjes.life'' [test_relative] ([to_Record test_rr], [], []) =
     ([], [test_relative\<lparr>ID := ''9''\<rparr>], []) \<and>
   set_partition ''matjes.life'' [test_full] ([to_Record test_rr], [], []) =
     ([], [test_full\<lparr>ID := ''9''\<rparr>], []) \<and>
   list_all2 (same_record_key ''matjes.life'')
     [test_full\<lparr>ID := ''9''\<rparr>] [test_relative\<lparr>ID := ''9''\<rparr>] \<and>
   Name test_relative \<noteq> Name (to_Record test_rr) \<and>
   getHostname ''matjes.life'' ''_test.matjes.life'' = ''_test'' \<and>
   getHostname ''matjes.life'' ''_test'' = ''_test'' \<and>
   getHostname ''matjes.life'' ''_acme.matjes.life'' = ''_acme'' \<and>
   delete_match ''matjes.life'' [test_relative] ([to_Record acme_life_rr], []) =
     ([to_Record acme_life_rr], []) \<and>
   set_partition ''matjes.life'' [test_relative] ([to_Record acme_life_rr], [], []) =
     ([to_Record acme_life_rr], [], [test_relative])"
proof -
  let ?z = "''matjes.life''"
  have k: "list_all2 (same_key ?z) [test_full] [test_relative]"
    by (simp add: same_key_def test_full_def test_relative_def getHostname_test)
  have k': "list_all2 (same_record_key ?z) [test_full] [test_relative]"
    by (simp add: same_record_key_def same_key_def test_full_def test_relative_def
        getHostname_test)
  have sf: "set_partition ?z [test_full] ([to_Record test_rr], [], []) =
              ([], [test_full\<lparr>ID := ''9''\<rparr>], [])"
    by (simp add: to_Record_def test_rr_def test_full_def getHostname_test)
  have sr: "set_partition ?z [test_relative] ([to_Record test_rr], [], []) =
              ([], [test_relative\<lparr>ID := ''9''\<rparr>], [])"
    by (simp add: to_Record_def test_rr_def test_relative_def getHostname_test)
  have t: "Type (to_Record test_rr) = Type test_relative \<and>
           Name (to_Record test_rr) = ''_test'' @ ''.'' @ ?z \<and>
           Name test_relative = ''_test''"
    by (simp add: to_Record_def test_rr_def test_relative_def)
  have r: "(\<forall>q. ''_test'' \<noteq> q @ ?z) \<and> (''_test'' = [] \<or> last ''_test'' \<noteq> CHR ''.'')"
    using test_no_zone_suffix by simp
  have i: "ID test_relative = ''''"
    by (simp add: test_relative_def)
  have n: "Name test_relative \<noteq> Name (to_Record test_rr)"
    by (simp add: to_Record_def test_rr_def test_relative_def)
  note A = names_compared_after_normalization
    [where zone = ?z and records = "[test_full]" and records' = "[test_relative]"
       and currentRecords = "[to_Record test_rr]" and desired = test_relative
       and currentRecord = "to_Record test_rr" and pool = "[]" and pool' = "[]"
       and upd = "[test_full\<lparr>ID := ''9''\<rparr>]" and upd' = "[test_relative\<lparr>ID := ''9''\<rparr>]"
       and app = "[]" and app' = "[]" and h = "''_test''" and p = "''_test.''"
       and name = "''_test''"]
  note B = names_compared_after_normalization
    [where zone = ?z and desired = test_relative
       and currentRecord = "to_Record acme_life_rr" and h = "''_acme''"
       and records = "[]" and records' = "[]" and currentRecords = "[]"
       and pool = "[]" and pool' = "[]" and upd = "[]" and upd' = "[]"
       and app = "[]" and app' = "[]" and p = "[]" and name = "[]"]
  have f1: "delete_match ?z [test_full] ([to_Record test_rr], []) =
       delete_match ?z [test_relative] ([to_Record test_rr], [])"
    using A k by (elim conjE) blast
  have f3: "list_all2 (same_record_key ?z)
       [test_full\<lparr>ID := ''9''\<rparr>] [test_relative\<lparr>ID := ''9''\<rparr>]"
    using A k' sf sr by (elim conjE) blast
  have f4: "getHostname ?z ''_test.matjes.life'' = ''_test'' \<and>
     getHostname ?z ''_test'' = ''_test''"
    using A by (elim conjE) blast
  have f5: "delete_match ?z [test_relative] ([to_Record test_rr], []) = ([], [to_Record test_rr])"
    using A t r by (elim conjE) blast
  have g: "getHostname ?z (''_acme'' @ ''.'' @ ?z) = ''_acme''"
    using B by blast
  then have g': "getHostname ?z ''_acme.matjes.life'' = ''_acme''" by simp
  have ne: "\<not> (Type (to_Record acme_life_rr) = Type test_relative \<and>
     getHostname ?z (Name (to_Record acme_life_rr)) = getHostname ?z (Name test_relative))"
    using f4 g' by (simp add: to_Record_def acme_life_rr_def test_relative_def)
  have f6: "delete_match ?z [test_relative] ([to_Record acme_life_rr], []) =
       (if Type (to_Record acme_life_rr) = Type test_relative \<and>
           getHostname ?z (Name (to_Record acme_life_rr)) = getHostname ?z (Name test_relative)
        then ([], [to_Record acme_life_rr]) else ([to_Record acme_life_rr], []))"
    using B by blast
  have f7: "ID test_relative = '''' \<longrightarrow>
     set_partition ?z [test_relative] ([to_Record acme_life_rr], [], []) =
       (if Type (to_Record acme_life_rr) = Type test_relative \<and>
           getHostname ?z (Name (to_Record acme_life_rr)) = getHostname ?z (Name test_relative)
        then ([], [test_relative\<lparr>ID := ID (to_Record acme_life_rr)\<rparr>], [])
        else ([to_Record acme_life_rr], [], [test_relative]))"
    using B by blast
  from f6 ne have f8: "delete_match ?z [test_relative] ([to_Record acme_life_rr], []) =
       ([to_Record acme_life_rr], [])"
    by (simp only: if_False)
  from f7 i ne have f9: "set_partition ?z [test_relative] ([to_Record acme_life_rr], [], []) =
       ([to_Record acme_life_rr], [], [test_relative])"
    by (simp only: if_False simp_thms)
  from f4 have f4a: "getHostname ?z ''_test.matjes.life'' = ''_test''"
    and f4b: "getHostname ?z ''_test'' = ''_test''" by simp_all
  show ?thesis by (intro conjI) (fact f1 f5 sr sf f3 n f4a f4b g' f8 f9)+
qed

subsection \<open>C9\<close>

text \<open>
  Claim C9: every record that a successful \<^verbatim>\<open>List\<close> returns has the zone-normalized
  host name as its \<open>Name\<close>: no trailing dot, the zone suffix stripped.

  \<^verbatim>\<open>GetRecords\<close> does not normalize. When the registrar lists the host
  \<^verbatim>\<open>www.example.com\<close> in the zone \<^verbatim>\<open>example.com\<close>, the returned record has that
  name: it still ends in the zone, and its normal form is \<^verbatim>\<open>www\<close>.
\<close>

theorem GetRecords_name_not_normalized:
  "fst (GetRecords (accepting [www_rr]) example_provider [] ''example.com'') =
     Ok [to_Record www_rr] \<and>
   Name (to_Record www_rr) = ''www.example.com'' \<and>
   HasSuffix (Name (to_Record www_rr)) ''example.com'' \<and>
   getHostname ''example.com'' (Name (to_Record www_rr)) = ''www'' \<and>
   Name (to_Record www_rr) \<noteq> getHostname ''example.com'' (Name (to_Record www_rr))"
  by (simp add: GetRecords_accepting to_Record_def www_rr_def getHostname_www HasSuffix_def)

text \<open>
  Claim C9 as amended: every record that a successful \<^verbatim>\<open>List\<close> returns has as its
  \<open>Name\<close> the host field of the corresponding record of the decoded response, as it
  was decoded. (The names are normalized where \<^verbatim>\<open>Set\<close>, \<^verbatim>\<open>Delete\<close> and \<^verbatim>\<open>Append\<close>
  compare or send them.)
\<close>

theorem GetRecords_names_as_decoded:
  assumes "GetRecords e p log zone = (Ok records, log')"
  shows "\<exists>body rrs. client_do e log (list_url p zone) = Response 200 body True \<and>
           unmarshal_records e body = Some rrs \<and>
           length records = length rrs \<and> map Name records = map rr_host rrs"
proof -
  from GetRecords_Ok [OF assms] obtain body rrs where
    b: "client_do e log (list_url p zone) = Response 200 body True"
       "unmarshal_records e body = Some rrs" "records = map to_Record rrs" by blast
  from b(3) have "length records = length rrs \<and> map Name records = map rr_host rrs"
    by (simp add: to_Record_def)
  with b(1,2) show ?thesis by blast
qed

theorem GetRecords_names_as_decoded_witness:
  "GetRecords (accepting [www_rr, acme_rr]) example_provider [] ''example.com'' =
     (Ok [to_Record www_rr, to_Record acme_rr], [list_url example_provider ''example.com'']) \<and>
   (\<exists>body rrs.
      client_do (accepting [www_rr, acme_rr]) [] (list_url example_provider ''example.com'') =
        Response 200 body True \<and>
      unmarshal_records (accepting [www_rr, acme_rr]) body = Some rrs \<and>
      length [to_Record www_rr, to_Record acme_rr] = length rrs \<and>
      map Name [to_Record www_rr, to_Record acme_rr] = map rr_host rrs)"
proof -
  have g: "GetRecords (accepting [www_rr, acme_rr]) example_provider [] ''example.com'' =
     (Ok [to_Record www_rr, to_Record acme_rr], [list_url example_provider ''example.com''])"
    by (simp add: GetRecords_accepting)
  from g GetRecords_names_as_decoded [OF g] show ?thesis by blast
qed

subsection \<open>C10\<close>

text \<open>
  Claim C10: the request URL is the concatenation of the record's fields as they are,
  so the request is not an injective function of the record: there are two different
  records, one with the characters \<^verbatim>\<open>&\<close> and \<^verbatim>\<open>=\<close> in its value, whose create and
  update requests are the same; a value can supply other query parameters.

  The record with the value \<^verbatim>\<open>x&rrttl=5\<close> and no TTL and the record with the value
  \<^verbatim>\<open>x\<close> and a TTL of five seconds have the same create URL and the same update URL,
  for every provider and zone, and \<^verbatim>\<open>AppendRecords\<close> issues the same requests for
  them at every registrar.
\<close>

theorem request_url_not_injective:
  "injecting_record \<noteq> plain_record \<and>
   CHR ''&'' \<in> set (Value injecting_record) \<and> CHR ''='' \<in> set (Value injecting_record) \<and>
   add_url p zone injecting_record = add_url p zone plain_record \<and>
   update_url p zone injecting_record = update_url p zone plain_record \<and>
   \<not> inj (add_url p zone) \<and> \<not> inj (update_url p zone) \<and>
   snd (AppendRecords e p log zone [injecting_record]) =
     snd (AppendRecords e p log zone [plain_record])"
proof -
  have ne: "injecting_record \<noteq> plain_record"
    by (simp add: injecting_record_def plain_record_def)
  have v: "CHR ''&'' \<in> set (Value injecting_record) \<and> CHR ''='' \<in> set (Value injecting_record)"
    by (simp add: injecting_record_def)
  have f: "Type injecting_record = Type plain_record"
    "Name injecting_record = Name plain_record"
    "ID injecting_record = ID plain_record"
    "Value injecting_record = ''x&rrttl=5''" "Value plain_record = ''x''"
    by (simp_all add: injecting_record_def plain_record_def)
  have a: "add_url p zone injecting_record = add_url p zone plain_record"
    using rrttl_rrdistance_empty by (simp add: add_url_def f rrttl_plain)
  have u: "update_url p zone injecting_record = update_url p zone plain_record"
    using rrttl_rrdistance_empty by (simp add: update_url_def f rrttl_plain)
  from ne a have ia: "\<not> inj (add_url p zone)" by (auto simp: inj_def)
  from ne u have iu: "\<not> inj (update_url p zone)" by (auto simp: inj_def)
  have s: "snd (AppendRecords e p log zone [injecting_record]) =
           snd (AppendRecords e p log zone [plain_record])"
    by (simp add: AppendRecords_def a split: prod.splits option.splits)
  from ne v a u ia iu s show ?thesis by blast
qed

end
